theory Spec2Isabelle
  imports Complex_Main
begin

section \<open>JavaScript values as the request handlers see them\<close>

text \<open>
  A JavaScript number is a finite double, NaN or one of the two infinities. A finite
  double is read as the rational it denotes. Comparisons and maxima of doubles are
  exact; a product is the exact product rounded to the nearest double, as defined
  below. Counters stay below \<open>2 ^ 53\<close>, where counting is exact.
\<close>

datatype jsnum = Fin rat | NaN | PosInf | NegInf

datatype jsval =
    JUndefined
  | JNull
  | JBool bool
  | JNum jsnum
  | JStr string
  | JObject

subsection \<open>Double arithmetic\<close>

text \<open>
  Rounding a rational to the nearest double (IEEE 754 binary64, ties to even).
  \<open>exponent_of r\<close> is the \<open>e\<close> with \<open>2 ^ e \<le> r < 2 ^ (e + 1)\<close> for a positive \<open>r\<close>;
  the doubles near \<open>r\<close> are the multiples of \<open>2 ^ (e - 52)\<close>, or of \<open>2 ^ (- 1074)\<close> in
  the subnormal range; a result of \<open>2 ^ 1024\<close> or more is Infinity.
\<close>

fun ilog2 :: "nat \<Rightarrow> nat" where
  "ilog2 n = (if n < 2 then 0 else Suc (ilog2 (n div 2)))"

definition pow2 :: "int \<Rightarrow> rat" where
  "pow2 e = (if 0 \<le> e then 2 ^ nat e else 1 / 2 ^ nat (- e))"

definition exponent_of :: "rat \<Rightarrow> int" where
  "exponent_of r =
     (if 1 \<le> r then int (ilog2 (nat \<lfloor>r\<rfloor>))
      else (let k = ilog2 (nat \<lfloor>1 / r\<rfloor>)
            in if 1 / r = 2 ^ k then - int k else - int k - 1))"

definition round_half_even :: "rat \<Rightarrow> int" where
  "round_half_even q =
     (let f = \<lfloor>q\<rfloor>; d = q - of_int f
      in if d < 1 / 2 then f else if 1 / 2 < d then f + 1
         else if even f then f else f + 1)"

definition round_positive :: "rat \<Rightarrow> jsnum" where
  "round_positive r =
     (let e = max (exponent_of r) (- 1022);
          u = pow2 (e - 52);
          v = of_int (round_half_even (r / u)) * u
      in if 2 ^ 1024 \<le> v then PosInf else Fin v)"

definition to_double :: "rat \<Rightarrow> jsnum" where
  "to_double r =
     (if r = 0 then Fin 0
      else if 0 < r then round_positive r
      else (case round_positive (- r) of Fin v \<Rightarrow> Fin (- v) | w \<Rightarrow> NegInf))"

text \<open>\<open>x * c\<close> for a number \<open>x\<close> and a positive finite constant \<open>c\<close>.\<close>

fun times_double :: "jsnum \<Rightarrow> rat \<Rightarrow> jsnum" where
  "times_double (Fin r) c = to_double (r * c)"
| "times_double NaN c = NaN"
| "times_double PosInf c = PosInf"
| "times_double NegInf c = NegInf"

subsection \<open>Predicates on values\<close>

text \<open>\<open>Number.isInteger(v)\<close>: no coercion, true only for integral finite numbers.\<close>

fun Number_isInteger :: "jsval \<Rightarrow> bool" where
  "Number_isInteger (JNum (Fin r)) = (of_int \<lfloor>r\<rfloor> = r)"
| "Number_isInteger _ = False"

text \<open>\<open>Number.isFinite(v)\<close>: no coercion either.\<close>

fun Number_isFinite :: "jsval \<Rightarrow> bool" where
  "Number_isFinite (JNum (Fin r)) = True"
| "Number_isFinite _ = False"

text \<open>The numeric value of a value already known to be a finite number.\<close>

fun numval :: "jsval \<Rightarrow> rat" where
  "numval (JNum (Fin r)) = r"
| "numval _ = 0"

text \<open>JavaScript truthiness, as used by \<open>!password\<close>.\<close>

fun truthy :: "jsval \<Rightarrow> bool" where
  "truthy JUndefined = False"
| "truthy JNull = False"
| "truthy (JBool b) = b"
| "truthy (JNum (Fin r)) = (r \<noteq> 0)"
| "truthy (JNum NaN) = False"
| "truthy (JNum _) = True"
| "truthy (JStr s) = (s \<noteq> [])"
| "truthy JObject = True"

fun typeof_string :: "jsval \<Rightarrow> bool" where
  "typeof_string (JStr s) = True"
| "typeof_string _ = False"

fun strval :: "jsval \<Rightarrow> string" where
  "strval (JStr s) = s"
| "strval _ = []"

text \<open>
  A caught exception is looked at only through \<open>err?.message\<close>, so it is modelled by
  that message, if it has one. \<open>err?.message || dflt\<close> falls back on the default when
  the message is missing or empty.
\<close>

type_synonym exn = "string option"

definition message_or :: "exn \<Rightarrow> string \<Rightarrow> string" where
  "message_or err dflt =
     (case err of None \<Rightarrow> dflt | Some m \<Rightarrow> if m = [] then dflt else m)"

section \<open>The submission client: postDonateTo\<close>

text \<open>
  What one call of \<open>fetch\<close> followed by \<open>res.text()\<close> can do: deliver a status and a
  body text, or throw. \<open>res.ok\<close> is the status being in the range 200 to 299.
\<close>

datatype outcome = Responded nat string | Threw exn

definition ok :: "nat \<Rightarrow> bool" where
  "ok st = (200 \<le> st \<and> st \<le> 299)"

text \<open>
  The payload handed back: the parsed JSON, \<open>{raw: text}\<close> when parsing throws, or
  \<open>{error: message}\<close>. \<open>JSON.parse\<close> is a parameter of the model.
\<close>

datatype 'j payload = Parsed 'j | RawText string | ErrorObj string

definition parse_or_raw :: "(string \<Rightarrow> 'j option) \<Rightarrow> string \<Rightarrow> 'j payload" where
  "parse_or_raw JSON_parse txt =
     (case JSON_parse txt of Some j \<Rightarrow> Parsed j | None \<Rightarrow> RawText txt)"

datatype 'j donate_result = DonateResult (res_status: nat) (res_data: "'j payload")

text \<open>
  The effects a handler has on the outside world, in the order they happen:
  a signing call, a POST to the remote service, a call of \<open>sleep\<close> with its argument
  in milliseconds.
\<close>

datatype event = Sign nat string | Fetch string | Sleep jsnum

text \<open>
  The \<open>while (true)\<close> loop of \<open>postDonateTo\<close>. \<open>remote k\<close> is the outcome of the
  \<open>k\<close>-th call of \<open>fetch\<close> made by this invocation, counted from 0; \<open>attempt\<close> and
  \<open>wait\<close> are the loop's two variables on entry to the body. \<open>wait * 1000\<close> and
  \<open>wait *= 2\<close> are products of doubles.
\<close>

function postDonateTo_loop ::
  "(nat \<Rightarrow> outcome) \<Rightarrow> (string \<Rightarrow> 'j option) \<Rightarrow> string \<Rightarrow> int \<Rightarrow> nat \<Rightarrow> jsnum
     \<Rightarrow> 'j donate_result \<times> event list" where
  "postDonateTo_loop remote JSON_parse url maxRetries attempt wait =
     (case remote attempt of
        Responded st txt \<Rightarrow>
          if ok st then (DonateResult st (parse_or_raw JSON_parse txt), [Fetch url])
          else if (st = 429 \<or> st = 408) \<and> int (attempt + 1) \<le> maxRetries then
            (case postDonateTo_loop remote JSON_parse url maxRetries (attempt + 1)
                    (times_double wait 2) of
               (res, evs) \<Rightarrow> (res, Fetch url # Sleep (times_double wait 1000) # evs))
          else (DonateResult st (parse_or_raw JSON_parse txt), [Fetch url])
      | Threw err \<Rightarrow>
          if int (attempt + 1) \<le> maxRetries then
            (case postDonateTo_loop remote JSON_parse url maxRetries (attempt + 1)
                    (times_double wait 2) of
               (res, evs) \<Rightarrow> (res, Fetch url # Sleep (times_double wait 1000) # evs))
          else (DonateResult 0 (ErrorObj (message_or err ''Network error'')), [Fetch url]))"
  by pat_completeness auto
termination
  by (relation "measure (\<lambda>(remote, JSON_parse, url, maxRetries, attempt, wait).
        nat (maxRetries - int attempt))") auto

text \<open>
  \<open>postDonateTo\<close> itself. Its only caller passes a finite number for \<open>backoffSec\<close>,
  hence the rational; \<open>Math.max(1, backoffSec)\<close> is exact.
\<close>

definition postDonateTo ::
  "(nat \<Rightarrow> outcome) \<Rightarrow> (string \<Rightarrow> 'j option) \<Rightarrow> string \<Rightarrow> int \<Rightarrow> rat
     \<Rightarrow> 'j donate_result \<times> event list" where
  "postDonateTo remote JSON_parse url maxRetries backoffSec =
     postDonateTo_loop remote JSON_parse url maxRetries 0 (Fin (max 1 backoffSec))"

declare postDonateTo_loop.simps [simp del]

declare ilog2.simps [simp del]

section \<open>The collaborators and the data they hand over\<close>

text \<open>A derived address of the wallet, as \<open>loadWallet\<close> returns it.\<close>

record derived_address =
  index :: nat
  bech32 :: string
  publicKeyHex :: string

text \<open>
  Modelled from the spec: the receipts logger's entry type is not among the sources;
  the specification's data model gives a receipt an address string and a boolean
  dev-fee flag, the only two fields the handlers read.
\<close>

record receipt =
  address :: string
  isDevFee :: bool

text \<open>
  The parsed JSON body. Both handlers read their fields off the same untyped object,
  so one record carries the fields of both; a missing field is \<open>JUndefined\<close>.
  \<open>addressIndexes\<close> is \<open>None\<close> when the field is not an array, and otherwise holds the
  array's elements after \<open>Number(n)\<close> has been applied to each.
\<close>

record body =
  password :: jsval
  recipientAddress :: jsval
  addressIndexes :: "jsnum list option"
  dryRun :: jsval
  maxRetries :: jsval
  initialBackoffSeconds :: jsval
  challenge :: jsval
  targetAddress :: jsval
  includePublicKey :: jsval

text \<open>
  Everything a handler reaches outside itself: the wallet (unlocking and signing may
  throw), the receipts snapshot, the remote service as the sequence of outcomes of the
  successive \<open>fetch\<close> calls of one request, and the platform functions
  \<open>JSON.parse\<close>, \<open>encodeURIComponent\<close> (which throws on a malformed string),
  \<open>new Date().toISOString()\<close> and the number-to-string conversion of integers of
  \<open>2 ^ 53\<close> and more (shortest round-trip digits, exponent form from \<open>1e21\<close> on).
\<close>

record 'j env =
  loadWallet :: "string \<Rightarrow> exn + derived_address list"
  signMessage :: "nat \<Rightarrow> string \<Rightarrow> exn + string"
  readReceipts :: "receipt list"
  fetch :: "nat \<Rightarrow> outcome"
  JSON_parse :: "string \<Rightarrow> 'j option"
  encodeURIComponent :: "string \<Rightarrow> exn + string"
  toISOString :: string
  toString_large :: "nat \<Rightarrow> string"

section \<open>The eligibility resolver\<close>

text \<open>\<open>m.get(k) || 0\<close> on the counting map.\<close>

definition userCount :: "(string \<rightharpoonup> nat) \<Rightarrow> string \<Rightarrow> nat" where
  "userCount m k = (case m k of None \<Rightarrow> 0 | Some c \<Rightarrow> c)"

text \<open>
  The loop over the receipts: a receipt counts when its address is truthy (a non-empty
  string) and it is not a dev-fee receipt.
\<close>

fun countReceipts :: "receipt list \<Rightarrow> (string \<rightharpoonup> nat) \<Rightarrow> (string \<rightharpoonup> nat)" where
  "countReceipts [] m = m"
| "countReceipts (r # rs) m =
     countReceipts rs
       (if address r \<noteq> [] \<and> \<not> isDevFee r
        then m(address r \<mapsto> userCount m (address r) + 1)
        else m)"

definition userSolutionsPerAddress :: "receipt list \<Rightarrow> (string \<rightharpoonup> nat)" where
  "userSolutionsPerAddress receipts = countReceipts receipts Map.empty"

text \<open>\<open>Number.isInteger(n) && n >= 0\<close> on an element of \<open>addressIndexes\<close>.\<close>

fun is_index :: "jsnum \<Rightarrow> bool" where
  "is_index (Fin r) = (of_int \<lfloor>r\<rfloor> = r \<and> r \<ge> 0)"
| "is_index _ = False"

fun as_index :: "jsnum \<Rightarrow> nat" where
  "as_index (Fin r) = nat \<lfloor>r\<rfloor>"
| "as_index _ = 0"

text \<open>
  The indexes asked for: the non-negative integers of a non-empty \<open>addressIndexes\<close>
  array, else the index of every derived address.
\<close>

definition requestedIndexes :: "jsnum list option \<Rightarrow> derived_address list \<Rightarrow> nat list" where
  "requestedIndexes ai addresses =
     (case ai of
        Some ns \<Rightarrow>
          if ns \<noteq> [] then map as_index (filter is_index ns) else map index addresses
      | None \<Rightarrow> map index addresses)"

text \<open>\<open>addresses.find((a) => a.index === i)\<close>.\<close>

definition findAddress :: "derived_address list \<Rightarrow> nat \<Rightarrow> derived_address option" where
  "findAddress addresses i = List.find (\<lambda>a. index a = i) addresses"

section \<open>The consolidate handler\<close>

definition API_BASE :: string where
  "API_BASE = ''https://scavenger.prod.gd.midnighttge.io''"

definition startsWith :: "string \<Rightarrow> string \<Rightarrow> bool" where
  "startsWith s p = (take (length p) s = p)"

definition isValidAddr :: "jsval \<Rightarrow> bool" where
  "isValidAddr addr =
     (typeof_string addr
      \<and> (startsWith (strval addr) ''addr1'' \<or> startsWith (strval addr) ''tnight1'')
      \<and> length (strval addr) > 20)"

text \<open>The two retry parameters as the handler computes them from the body.\<close>

definition effMaxRetries :: "body \<Rightarrow> int" where
  "effMaxRetries b =
     (if Number_isInteger (maxRetries b) then max 0 \<lfloor>numval (maxRetries b)\<rfloor> else 3)"

definition effBackoff :: "body \<Rightarrow> rat" where
  "effBackoff b =
     (if Number_isFinite (initialBackoffSeconds b)
      then max 1 (numval (initialBackoffSeconds b)) else 20)"

text \<open>
  The donors: each requested index is looked up, indexes without an address are
  filtered out, then the recipient itself, then the addresses without user solutions.
\<close>

definition donorsOf ::
  "derived_address list \<Rightarrow> (string \<rightharpoonup> nat) \<Rightarrow> string \<Rightarrow> nat list \<Rightarrow> derived_address list" where
  "donorsOf addresses m recipient donorIndexes =
     filter (\<lambda>a. userCount m (bech32 a) > 0)
       (filter (\<lambda>a. bech32 a \<noteq> recipient)
          (List.map_filter (findAddress addresses) donorIndexes))"

text \<open>One element of \<open>results\<close>; an absent optional field is \<open>None\<close>.\<close>

record 'j entry =
  e_index :: nat
  donor :: string
  totalUserSolutions :: nat
  signed :: bool
  signature :: "string option"
  curl :: "string option"
  status :: "nat option"
  response :: "'j payload option"

definition donateUrl :: "string \<Rightarrow> string \<Rightarrow> string \<Rightarrow> string" where
  "donateUrl recipient donorAddr encodedSig =
     API_BASE @ ''/donate_to/'' @ recipient @ ''/'' @ donorAddr @ ''/'' @ encodedSig"

definition curlOf :: "string \<Rightarrow> string" where
  "curlOf url =
     ''curl -L -X POST '' @ [CHR 0x22] @ url @ [CHR 0x22] @ '' -d ''
       @ [CHR 0x22] @ ''{}'' @ [CHR 0x22]"

text \<open>The entry pushed by the \<open>catch\<close> of the donor loop.\<close>

definition failedEntry :: "(string \<rightharpoonup> nat) \<Rightarrow> derived_address \<Rightarrow> exn \<Rightarrow> 'j entry" where
  "failedEntry m d err =
     \<lparr> e_index = index d, donor = bech32 d, totalUserSolutions = userCount m (bech32 d),
       signed = False, signature = None, curl = None, status = Some 0,
       response = Some (ErrorObj (message_or err ''Signing failed'')) \<rparr>"

text \<open>
  The body of the donor loop. \<open>n\<close> is the number of \<open>fetch\<close> calls the request has
  made so far, so that this donor's submission sees the remote outcomes from there on.
\<close>

definition processDonor ::
  "'j env \<Rightarrow> bool \<Rightarrow> string \<Rightarrow> string \<Rightarrow> int \<Rightarrow> rat \<Rightarrow> (string \<rightharpoonup> nat) \<Rightarrow> nat
     \<Rightarrow> derived_address \<Rightarrow> 'j entry \<times> event list" where
  "processDonor env dry recipient msg maxR backoff m n d =
     (case signMessage env (index d) msg of
        Inl err \<Rightarrow> (failedEntry m d err, [Sign (index d) msg])
      | Inr sig \<Rightarrow>
          (case encodeURIComponent env sig of
             Inl err \<Rightarrow> (failedEntry m d err, [Sign (index d) msg])
           | Inr encodedSig \<Rightarrow>
               (let url = donateUrl recipient (bech32 d) encodedSig;
                    ent = \<lparr> e_index = index d, donor = bech32 d,
                            totalUserSolutions = userCount m (bech32 d),
                            signed = True, signature = Some sig, curl = Some (curlOf url),
                            status = None, response = None \<rparr>
                in if \<not> dry then
                     (case postDonateTo (\<lambda>k. fetch env (n + k)) (JSON_parse env) url maxR backoff of
                        (res, evs) \<Rightarrow>
                          (ent\<lparr> status := Some (res_status res),
                                response := Some (res_data res) \<rparr>,
                           Sign (index d) msg # evs))
                   else (ent, [Sign (index d) msg]))))"

definition fetches :: "event list \<Rightarrow> nat" where
  "fetches evs = length (filter (\<lambda>e. case e of Fetch u \<Rightarrow> True | _ \<Rightarrow> False) evs)"

text \<open>\<open>for (const donor of donors)\<close>, with the results and the effects so far.\<close>

fun forDonors ::
  "'j env \<Rightarrow> bool \<Rightarrow> string \<Rightarrow> string \<Rightarrow> int \<Rightarrow> rat \<Rightarrow> (string \<rightharpoonup> nat)
     \<Rightarrow> derived_address list \<Rightarrow> 'j entry list \<Rightarrow> event list \<Rightarrow> 'j entry list \<times> event list" where
  "forDonors env dry recipient msg maxR backoff m [] results evs = (results, evs)"
| "forDonors env dry recipient msg maxR backoff m (d # ds) results evs =
     (case processDonor env dry recipient msg maxR backoff m (fetches evs) d of
        (ent, evs') \<Rightarrow>
          forDonors env dry recipient msg maxR backoff m ds (results @ [ent]) (evs @ evs'))"

text \<open>
  What a handler answers: \<open>{success: false, error}\<close> with its HTTP status, or one of
  the two \<open>success: true\<close> objects.
\<close>

record proof_entry =
  p_index :: nat
  p_address :: string
  p_signature :: string
  p_totalUserSolutions :: nat
  p_publicKeyHex :: "string option"

datatype 'j reply =
    Failure nat string
  | Consolidated bool string string nat "'j entry list" string
  | ProofSet string nat "proof_entry list" string

fun success :: "'j reply \<Rightarrow> bool" where
  "success (Failure code msg) = False"
| "success (Consolidated dry msg recipient n results note) = True"
| "success (ProofSet ch n proofs note) = True"

fun results_of :: "'j reply \<Rightarrow> 'j entry list" where
  "results_of (Consolidated dry msg recipient n results note) = results"
| "results_of _ = []"

fun proofs_of :: "'j reply \<Rightarrow> proof_entry list" where
  "proofs_of (ProofSet ch n proofs note) = proofs"
| "proofs_of _ = []"

text \<open>\<open>POST /api/wallet/consolidate\<close>: the reply and the effects, in order.\<close>

definition consolidate_POST :: "'j env \<Rightarrow> body \<Rightarrow> 'j reply \<times> event list" where
  "consolidate_POST env b =
     (let dry = (dryRun b = JBool True);
          maxR = effMaxRetries b;
          backoff = effBackoff b
      in if \<not> truthy (password b) \<or> \<not> typeof_string (password b) then
           (Failure 400 ''Missing password'', [])
         else if \<not> isValidAddr (recipientAddress b) then
           (Failure 400 ''Invalid recipientAddress'', [])
         else
           (case loadWallet env (strval (password b)) of
              Inl err \<Rightarrow> (Failure 500 (message_or err ''Internal error''), [])
            | Inr addresses \<Rightarrow>
                (let recipient = strval (recipientAddress b);
                     m = userSolutionsPerAddress (readReceipts env);
                     donorIndexes = requestedIndexes (addressIndexes b) addresses;
                     donors = donorsOf addresses m recipient donorIndexes
                 in if donors = [] then
                      (Failure 400 ''No donor addresses with user solutions'', [])
                    else
                      (let msg = ''Assign accumulated Scavenger rights to: '' @ recipient
                       in case forDonors env dry recipient msg maxR backoff m donors [] [] of
                            (results, evs) \<Rightarrow>
                              (Consolidated dry msg recipient (length results) results
                                 (if dry
                                  then ''Dry run only: use the provided curl commands to submit manually.''
                                  else ''Completed. Check per-donor status/response for success or errors.''),
                               evs)))))"

section \<open>The consolidation-proofs handler\<close>

text \<open>
  \<open>String.prototype.trim\<close> on strings whose characters are the code units 0 to 255:
  tab, line feed, vertical tab, form feed, carriage return, space and the no-break
  space are the white space of that range.
\<close>

definition is_space :: "char \<Rightarrow> bool" where
  "is_space c =
     (c = CHR 0x09 \<or> c = CHR 0x0A \<or> c = CHR 0x0B \<or> c = CHR 0x0C \<or> c = CHR 0x0D
      \<or> c = CHR 0x20 \<or> c = CHR 0xA0)"

definition trim :: "string \<Rightarrow> string" where
  "trim s = rev (dropWhile is_space (rev (dropWhile is_space s)))"

text \<open>The challenge resolution; \<open>ts\<close> is what \<open>new Date().toISOString()\<close> returns.\<close>

definition resolveChallenge :: "jsval \<Rightarrow> jsval \<Rightarrow> string \<Rightarrow> string option" where
  "resolveChallenge userChallenge target ts =
     (if typeof_string userChallenge \<and> length (trim (strval userChallenge)) > 0 then
        Some (trim (strval userChallenge))
      else if typeof_string target \<and> length (trim (strval target)) > 0 then
        Some (''scavenger-consolidate|target='' @ trim (strval target) @ ''|ts='' @ ts)
      else None)"

text \<open>The decimal digits of a natural number.\<close>

fun showIndex :: "nat \<Rightarrow> string" where
  "showIndex n =
     (if n < 10 then [''0123456789'' ! n]
      else showIndex (n div 10) @ [''0123456789'' ! (n mod 10)])"

text \<open>
  An index as \<open>join\<close> prints it: below \<open>2 ^ 53\<close> every integer is a double of its own
  and is printed with all its decimal digits; from there on the string is the one the
  platform's conversion gives (\<open>large\<close>), in exponent form from \<open>1e21\<close> on.
\<close>

definition indexToString :: "(nat \<Rightarrow> string) \<Rightarrow> nat \<Rightarrow> string" where
  "indexToString large n = (if n < 2 ^ 53 then showIndex n else large n)"

text \<open>\<open>Array.prototype.join\<close> on strings.\<close>

fun join :: "string \<Rightarrow> string list \<Rightarrow> string" where
  "join sep [] = []"
| "join sep [x] = x"
| "join sep (x # y # ys) = x @ sep @ join sep (y # ys)"

text \<open>
  Reading \<open>addr.bech32\<close> off the \<open>undefined\<close> that \<open>find\<close> returns for an unknown index
  throws a TypeError; its message is the engine's.
\<close>

definition typeError :: exn where
  "typeError = Some ''Cannot read properties of undefined''"

text \<open>The filter that keeps the indexes whose address has user solutions.\<close>

fun filterEligible ::
  "derived_address list \<Rightarrow> (string \<rightharpoonup> nat) \<Rightarrow> nat list \<Rightarrow> exn + nat list" where
  "filterEligible addresses m [] = Inr []"
| "filterEligible addresses m (i # rest) =
     (case findAddress addresses i of
        None \<Rightarrow> Inl typeError
      | Some addr \<Rightarrow>
          (case filterEligible addresses m rest of
             Inl err \<Rightarrow> Inl err
           | Inr kept \<Rightarrow> Inr (if userCount m (bech32 addr) > 0 then i # kept else kept)))"

text \<open>The loop producing the proofs; an exception leaves it at once.\<close>

fun produceProofs ::
  "'j env \<Rightarrow> bool \<Rightarrow> derived_address list \<Rightarrow> (string \<rightharpoonup> nat) \<Rightarrow> string \<Rightarrow> nat list
     \<Rightarrow> proof_entry list \<Rightarrow> event list \<Rightarrow> (exn + proof_entry list) \<times> event list" where
  "produceProofs env inc addresses m ch [] proofs evs = (Inr proofs, evs)"
| "produceProofs env inc addresses m ch (i # rest) proofs evs =
     (case signMessage env i ch of
        Inl err \<Rightarrow> (Inl err, evs @ [Sign i ch])
      | Inr sig \<Rightarrow>
          (case findAddress addresses i of
             None \<Rightarrow> (Inl typeError, evs @ [Sign i ch])
           | Some addr \<Rightarrow>
               produceProofs env inc addresses m ch rest
                 (proofs @ [\<lparr> p_index = i, p_address = bech32 addr, p_signature = sig,
                              p_totalUserSolutions = userCount m (bech32 addr),
                              p_publicKeyHex = (if inc then Some (publicKeyHex addr) else None) \<rparr>])
                 (evs @ [Sign i ch])))"

text \<open>\<open>POST /api/wallet/consolidation-proofs\<close>.\<close>

definition proofs_POST :: "'j env \<Rightarrow> body \<Rightarrow> 'j reply \<times> event list" where
  "proofs_POST env b =
     (let inc = (includePublicKey b \<noteq> JBool False)
      in if \<not> typeof_string (password b) \<or> length (strval (password b)) = 0 then
           (Failure 400 ''Missing or invalid password'', [])
         else
           (case resolveChallenge (challenge b) (targetAddress b) (toISOString env) of
              None \<Rightarrow> (Failure 400 ''Provide challenge or targetAddress to build one'', [])
            | Some ch \<Rightarrow>
                (case loadWallet env (strval (password b)) of
                   Inl err \<Rightarrow> (Failure 500 (message_or err ''Internal error''), [])
                 | Inr addresses \<Rightarrow>
                     (let indexes = requestedIndexes (addressIndexes b) addresses;
                          invalid = filter (\<lambda>i. i \<notin> set (map index addresses)) indexes
                      in if length invalid > 0 then
                           (Failure 400
                              (''Invalid address indexes: ''
                                 @ join '', '' (map (indexToString (toString_large env)) invalid)),
                            [])
                         else
                           (let m = userSolutionsPerAddress (readReceipts env)
                            in case filterEligible addresses m indexes of
                                 Inl err \<Rightarrow> (Failure 500 (message_or err ''Internal error''), [])
                               | Inr eligible \<Rightarrow>
                                   if length eligible = 0 then
                                     (Failure 400
                                        ''No eligible addresses to sign (no addresses with user solutions)'',
                                      [])
                                   else
                                     (case produceProofs env inc addresses m ch eligible [] [] of
                                        (outcome, evs) \<Rightarrow>
                                          (case outcome of
                                             Inl err \<Rightarrow>
                                               Failure 500 (message_or err ''Internal error'')
                                           | Inr proofs \<Rightarrow>
                                               ProofSet ch (length proofs) proofs
                                                 ''Submit these proofs to the consolidation portal. If the portal provides its own challenge string, re-run with that exact value.'',
                                           evs)))))))"

declare showIndex.simps [simp del]

section \<open>Notions of the specification\<close>

text \<open>
  The retry policy's classification of an outcome: status 429 or 408, or an exception.
\<close>

fun retryable :: "outcome \<Rightarrow> bool" where
  "retryable (Responded st txt) = (st = 429 \<or> st = 408)"
| "retryable (Threw err) = True"

text \<open>The result an outcome stands for when it is the last one observed.\<close>

fun finalResult :: "(string \<Rightarrow> 'j option) \<Rightarrow> outcome \<Rightarrow> 'j donate_result" where
  "finalResult parse (Responded st txt) = DonateResult st (parse_or_raw parse txt)"
| "finalResult parse (Threw err) = DonateResult 0 (ErrorObj (message_or err ''Network error''))"

text \<open>
  The trace of the loop entered with wait \<open>w\<close> when it retries \<open>n\<close> times: attempts
  with a sleep between each two, the wait doubled by the loop after each sleep.
\<close>

fun backoffTrace :: "string \<Rightarrow> jsnum \<Rightarrow> nat \<Rightarrow> event list" where
  "backoffTrace url w 0 = [Fetch url]"
| "backoffTrace url w (Suc n) =
     Fetch url # Sleep (times_double w 1000) # backoffTrace url (times_double w 2) n"

text \<open>
  Twice a wait, exactly: the double of a finite wait, or Infinity once that double
  leaves the range of doubles.
\<close>

fun dbl :: "jsnum \<Rightarrow> jsnum" where
  "dbl (Fin v) = (if 2 ^ 1024 \<le> 2 * v then PosInf else Fin (2 * v))"
| "dbl w = w"

text \<open>
  Attempts with waits strictly between them: \<open>n + 1\<close> attempts, the first sleep \<open>s\<close>
  milliseconds, every later sleep twice the one before.
\<close>

fun doublingTrace :: "string \<Rightarrow> jsnum \<Rightarrow> nat \<Rightarrow> event list" where
  "doublingTrace url s 0 = [Fetch url]"
| "doublingTrace url s (Suc n) = Fetch url # Sleep s # doublingTrace url (dbl s) n"

text \<open>The arguments of the sleeps of a trace, in milliseconds, in order.\<close>

fun waits :: "event list \<Rightarrow> jsnum list" where
  "waits [] = []"
| "waits (Sleep ms # evs) = ms # waits evs"
| "waits (e # evs) = waits evs"

text \<open>
  The count the specification gives an address: the receipts with that address that
  are not dev-fee receipts.
\<close>

definition spec_totalUserSolutions :: "receipt list \<Rightarrow> string \<Rightarrow> nat" where
  "spec_totalUserSolutions receipts addr =
     length (filter (\<lambda>r. address r = addr \<and> \<not> isDevFee r) receipts)"

text \<open>The signing calls of a trace, in order: index and message.\<close>

fun signCalls :: "event list \<Rightarrow> (nat \<times> string) list" where
  "signCalls [] = []"
| "signCalls (Sign i msg # evs) = (i, msg) # signCalls evs"
| "signCalls (e # evs) = signCalls evs"

text \<open>
  The eligible indexes of the proofs flow: requested, belonging to a derived address,
  and with at least one user solution.
\<close>

definition eligibleIndexes ::
  "derived_address list \<Rightarrow> (string \<rightharpoonup> nat) \<Rightarrow> nat list \<Rightarrow> nat list" where
  "eligibleIndexes addresses m indexes =
     filter (\<lambda>i. case findAddress addresses i of
                    None \<Rightarrow> False
                  | Some a \<Rightarrow> 0 < userCount m (bech32 a)) indexes"

text \<open>The challenge a reply carries, if it is a proof set.\<close>

fun challenge_of :: "'j reply \<Rightarrow> string option" where
  "challenge_of (ProofSet ch n proofs note) = Some ch"
| "challenge_of _ = None"

section \<open>Example inputs\<close>

text \<open>
  A remote that is busy twice and then accepts; a wallet of two addresses whose second
  key is unavailable; three receipts; a request with \<open>maxRetries = 3\<close> and
  \<open>initialBackoffSeconds = 1\<close>.
\<close>

definition ex_remote :: "nat \<Rightarrow> outcome" where
  "ex_remote k = (if k < 2 then Responded 429 ''slow down'' else Responded 200 ''done'')"

definition ex_addresses :: "derived_address list" where
  "ex_addresses =
     [\<lparr> index = 0, bech32 = ''addr1qqqqqqqqqqqqqqqqqqqq0'', publicKeyHex = ''a0'' \<rparr>,
      \<lparr> index = 1, bech32 = ''addr1qqqqqqqqqqqqqqqqqqqq1'', publicKeyHex = ''a1'' \<rparr>]"

definition ex_env :: "unit env" where
  "ex_env =
     \<lparr> loadWallet = (\<lambda>pw. if pw = ''secret'' then Inr ex_addresses else Inl (Some ''Failed to decrypt wallet'')),
       signMessage = (\<lambda>i msg. if i = 1 then Inl (Some ''key unavailable'') else Inr ''sig+0/='' ),
       readReceipts =
         [\<lparr> address = ''addr1qqqqqqqqqqqqqqqqqqqq0'', isDevFee = False \<rparr>,
          \<lparr> address = ''addr1qqqqqqqqqqqqqqqqqqqq1'', isDevFee = False \<rparr>,
          \<lparr> address = ''addr1qqqqqqqqqqqqqqqqqqqq0'', isDevFee = True \<rparr>],
       fetch = ex_remote,
       JSON_parse = (\<lambda>txt. None),
       encodeURIComponent = (\<lambda>s. Inr (if s = ''sig+0/='' then ''sig%2B0%2F%3D'' else s)),
       toISOString = ''2025-11-01T00:00:00.000Z'',
       toString_large = (\<lambda>n. ''1e+21'') \<rparr>"

definition ex_body :: body where
  "ex_body =
     \<lparr> password = JStr ''secret'', recipientAddress = JStr ''addr1qqqqqqqqqqqqqqqqqqqq9'',
       addressIndexes = None, dryRun = JUndefined, maxRetries = JNum (Fin 3),
       initialBackoffSeconds = JNum (Fin 1), challenge = JUndefined,
       targetAddress = JUndefined, includePublicKey = JUndefined \<rparr>"

definition ex_proofs_body :: body where
  "ex_proofs_body =
     ex_body\<lparr> challenge := JStr '' prove-0 '', addressIndexes := Some [Fin 0],
              recipientAddress := JStr ''addr1qqqqqqqqqqqqqqqqqqqq0'' \<rparr>"

definition ex_target_body :: body where
  "ex_target_body =
     ex_body\<lparr> targetAddress := JStr '' addr1qqqqqqqqqqqqqqqqqqqq9'', addressIndexes := Some [Fin 0] \<rparr>"

definition ex_unknown_body :: body where
  "ex_unknown_body = ex_body\<lparr> addressIndexes := Some [Fin 0, Fin 7, Fin 12] \<rparr>"

text \<open>A request whose \<open>initialBackoffSeconds\<close> is the double nearest to 1.005.\<close>

definition ex_rounding_body :: body where
  "ex_rounding_body =
     ex_body\<lparr> maxRetries := JNum (Fin 1),
              initialBackoffSeconds := JNum (Fin (4526117625507348 / 2 ^ 52)) \<rparr>"

section \<open>Rounding to a double\<close>

lemma ilog2_bounds: "1 \<le> n \<Longrightarrow> 2 ^ ilog2 n \<le> n \<and> n < 2 ^ Suc (ilog2 n)"
proof (induction n rule: ilog2.induct)
  case (1 n)
  show ?case
  proof (cases "n < 2")
    case True
    with "1.prems" have "n = 1" by simp
    then show ?thesis by (simp add: ilog2.simps)
  next
    case False
    then have "1 \<le> n div 2" by simp
    with "1.IH" False have ih: "2 ^ ilog2 (n div 2) \<le> n div 2" "n div 2 < 2 ^ Suc (ilog2 (n div 2))"
      by simp_all
    have eq: "ilog2 n = Suc (ilog2 (n div 2))" using False by (subst ilog2.simps) simp
    from ih(1) have "2 * 2 ^ ilog2 (n div 2) \<le> n" by linarith
    moreover from ih(2) have "n < 2 * 2 ^ Suc (ilog2 (n div 2))" by linarith
    ultimately show ?thesis by (simp add: eq)
  qed
qed

lemma floor_twice: "\<lfloor>2 * r\<rfloor> div 2 = \<lfloor>r :: rat\<rfloor>"
proof -
  have "of_int \<lfloor>r\<rfloor> \<le> r" "r < of_int \<lfloor>r\<rfloor> + 1" by linarith+
  then have "2 * \<lfloor>r\<rfloor> \<le> \<lfloor>2 * r\<rfloor>" "\<lfloor>2 * r\<rfloor> < 2 * \<lfloor>r\<rfloor> + 2"
    by (simp_all add: le_floor_iff floor_less_iff)
  then show ?thesis by linarith
qed

lemma exponent_twice: "1 \<le> r \<Longrightarrow> exponent_of (2 * r) = exponent_of r + 1"
proof -
  assume r: "1 \<le> r"
  then have f: "1 \<le> \<lfloor>r\<rfloor>" by (simp add: le_floor_iff)
  have "nat \<lfloor>2 * r\<rfloor> div 2 = nat \<lfloor>r\<rfloor>"
    using floor_twice [of r] f by (simp add: nat_div_distrib)
  moreover have "\<not> nat \<lfloor>2 * r\<rfloor> < 2"
  proof -
    have "2 \<le> \<lfloor>2 * r\<rfloor>" using r by (simp add: le_floor_iff)
    then show ?thesis by linarith
  qed
  ultimately have "ilog2 (nat \<lfloor>2 * r\<rfloor>) = Suc (ilog2 (nat \<lfloor>r\<rfloor>))"
    by (subst ilog2.simps) simp
  then show ?thesis using r by (simp add: exponent_of_def)
qed

lemma exponent_nonneg: "1 \<le> r \<Longrightarrow> 0 \<le> exponent_of r"
  by (simp add: exponent_of_def)

lemma pow2_Suc: "pow2 (e + 1) = 2 * pow2 e"
proof (cases "0 \<le> e")
  case True
  then show ?thesis by (simp add: pow2_def nat_add_distrib)
next
  case False
  then have "nat (- e) = Suc (nat (- (e + 1)))" by simp
  with False show ?thesis by (simp add: pow2_def)
qed

lemma pow2_pos: "0 < pow2 e"
  by (simp add: pow2_def)

lemma round_half_even_ge: "\<lfloor>q\<rfloor> \<le> round_half_even q"
  by (simp add: round_half_even_def Let_def)

lemma round_positive_nonneg:
  "0 \<le> r \<Longrightarrow> 0 \<le> of_int (round_half_even (r / pow2 e)) * pow2 e"
proof -
  assume "0 \<le> r"
  then have "0 \<le> r / pow2 e" using pow2_pos [of e] by simp
  then have "0 \<le> \<lfloor>r / pow2 e\<rfloor>" by simp
  then have "0 \<le> round_half_even (r / pow2 e)" using round_half_even_ge [of "r / pow2 e"] by linarith
  then show ?thesis using pow2_pos [of e] by simp
qed

lemma round_positive_twice: "1 \<le> r \<Longrightarrow> round_positive (2 * r) = dbl (round_positive r)"
proof -
  assume r: "1 \<le> r"
  let ?e = "exponent_of r"
  let ?u = "pow2 (?e - 52)"
  let ?v = "of_int (round_half_even (r / ?u)) * ?u"
  have e: "max ?e (- 1022) = ?e" "max (?e + 1) (- 1022) = ?e + 1"
    using exponent_nonneg [OF r] by simp_all
  have u: "pow2 (?e + 1 - 52) = 2 * ?u" using pow2_Suc [of "?e - 52"] by (simp add: algebra_simps)
  have q: "2 * r / (2 * ?u) = r / ?u" by simp
  have v: "0 \<le> ?v" using r by (intro round_positive_nonneg) simp
  have two: "round_positive (2 * r) = (if 2 ^ 1024 \<le> 2 * ?v then PosInf else Fin (2 * ?v))"
    unfolding round_positive_def exponent_twice [OF r] e u q Let_def by (simp add: algebra_simps)
  have one: "round_positive r = (if 2 ^ 1024 \<le> ?v then PosInf else Fin ?v)"
    unfolding round_positive_def e Let_def by simp
  show ?thesis
  proof (cases "2 ^ 1024 \<le> ?v")
    case True
    with v have "2 ^ 1024 \<le> 2 * ?v" by linarith
    with True one two show ?thesis by simp
  next
    case False
    with one two show ?thesis by simp
  qed
qed

lemma to_double_twice: "1 \<le> r \<Longrightarrow> to_double (2 * r) = dbl (to_double r)"
  using round_positive_twice [of r] by (simp add: to_double_def)

lemma round_scaled_ge:
  assumes "(2::rat) ^ (p + d) \<le> r"
  shows "(2::rat) ^ (p + d) \<le> of_int (round_half_even (r / 2 ^ d)) * 2 ^ d"
proof -
  have "(2::rat) ^ p \<le> r / 2 ^ d"
    using assms by (simp add: power_add pos_le_divide_eq)
  then have "(2::int) ^ p \<le> \<lfloor>r / 2 ^ d\<rfloor>" by (simp add: le_floor_iff)
  then have "(2::int) ^ p \<le> round_half_even (r / 2 ^ d)"
    using round_half_even_ge [of "r / 2 ^ d"] by linarith
  then have "(2::rat) ^ p \<le> of_int (round_half_even (r / 2 ^ d))"
    by (metis of_int_le_iff of_int_numeral of_int_power)
  then have "(2::rat) ^ p * 2 ^ d \<le> of_int (round_half_even (r / 2 ^ d)) * 2 ^ d"
    by (simp add: mult_right_mono)
  then show ?thesis by (simp add: power_add)
qed

lemma round_positive_overflow:
  assumes big: "2 ^ 1024 \<le> r"
  shows "round_positive r = PosInf"
proof -
  have r: "1 \<le> r" by (rule order_trans [OF _ big]) simp
  let ?n = "nat \<lfloor>r\<rfloor>"
  let ?e = "ilog2 ?n"
  have "1 \<le> \<lfloor>r\<rfloor>" using r by (simp add: le_floor_iff)
  then have n1: "1 \<le> ?n" by linarith
  from ilog2_bounds [OF n1] have lo: "2 ^ ?e \<le> ?n" and hi: "?n < 2 ^ Suc ?e" by simp_all
  have "of_int ((2::int) ^ 1024) \<le> r" using big by (simp only: of_int_power of_int_numeral)
  then have "(2::int) ^ 1024 \<le> \<lfloor>r\<rfloor>" by (simp only: le_floor_iff)
  then have "int ((2::nat) ^ 1024) \<le> \<lfloor>r\<rfloor>" by (simp only: of_nat_power of_nat_numeral)
  then have "(2::nat) ^ 1024 \<le> ?n" by linarith
  with hi have lt: "(2::nat) ^ 1024 < 2 ^ Suc ?e" by linarith
  have "1024 < Suc ?e" by (rule power_less_imp_less_exp [of 2, OF _ lt]) simp
  then have e: "1024 \<le> ?e" by simp
  then obtain d where d: "?e = 52 + d" using le_Suc_ex [of 52 ?e] by auto
  have ex: "max (exponent_of r) (- 1022) - 52 = int d"
    using r d by (simp add: exponent_of_def)
  have u: "pow2 (int d) = 2 ^ d" by (simp add: pow2_def)
  have "(2::rat) ^ ?e \<le> of_nat ?n" using lo by (metis of_nat_le_iff of_nat_numeral of_nat_power)
  also have "\<dots> \<le> r" using r by (simp add: le_floor_iff)
  finally have "(2::rat) ^ (52 + d) \<le> r" unfolding d .
  then have "(2::rat) ^ (52 + d) \<le> of_int (round_half_even (r / 2 ^ d)) * 2 ^ d"
    by (rule round_scaled_ge)
  moreover have "(2::rat) ^ 1024 \<le> 2 ^ (52 + d)"
    using e unfolding d by (intro power_increasing) simp_all
  ultimately have v: "(2::rat) ^ 1024 \<le> of_int (round_half_even (r / 2 ^ d)) * 2 ^ d"
    by (rule order_trans [rotated])
  show ?thesis
    unfolding round_positive_def Let_def ex u by (simp only: v if_True)
qed

lemma to_double_overflow: "2 ^ 1024 \<le> r \<Longrightarrow> to_double r = PosInf"
proof -
  assume big: "2 ^ 1024 \<le> r"
  have "(0::rat) < 2 ^ 1024" by simp
  then have "0 < r" using big by (rule less_le_trans)
  then show ?thesis using round_positive_overflow [OF big] by (simp add: to_double_def)
qed


lemma round_half_even_of_int [simp]: "round_half_even (of_int k) = k"
  by (simp add: round_half_even_def)

lemma to_double_whole:
  assumes "1 \<le> n" and "n < 2 ^ 53"
  shows "to_double (of_nat n) = Fin (of_nat n)"
proof -
  let ?e = "ilog2 n"
  from ilog2_bounds [OF assms(1)] have "2 ^ ?e \<le> n" by simp
  with assms(2) have lt: "(2::nat) ^ ?e < 2 ^ 53" by linarith
  have "?e < 53" by (rule power_less_imp_less_exp [of 2, OF _ lt]) simp
  then obtain j where j: "52 = ?e + j" using le_Suc_ex [of ?e 52] by auto
  have ex: "max (exponent_of (of_nat n)) (- 1022) - 52 = - int j"
    using assms(1) j by (simp add: exponent_of_def)
  have u: "pow2 (- int j) = 1 / 2 ^ j" by (simp add: pow2_def)
  have q: "(of_nat n :: rat) / (1 / 2 ^ j) = of_int (int n * 2 ^ j)" by simp
  have v: "of_int (round_half_even (of_nat n / (1 / 2 ^ j))) * (1 / 2 ^ j) = (of_nat n :: rat)"
    unfolding q round_half_even_of_int by simp
  have "(of_nat n :: rat) < of_nat (2 ^ 53)" using assms(2) by (simp only: of_nat_less_iff)
  also have "\<dots> \<le> 2 ^ 1024" by simp
  finally have small: "\<not> 2 ^ 1024 \<le> (of_nat n :: rat)" by simp
  have "round_positive (of_nat n) = Fin (of_nat n)"
    unfolding round_positive_def Let_def ex u v using small by simp
  then show ?thesis using assms(1) by (simp add: to_double_def)
qed

lemma ilog2_1004: "ilog2 1004 = 9"
  by (simp add: ilog2.simps)

lemma rounded_1005_ms:
  "to_double (4526117625507348 / 2 ^ 52 * 1000) = Fin (8840073487319039 / 2 ^ 43)"
proof -
  let ?r = "4526117625507348 / 2 ^ 52 * 1000 :: rat"
  have r: "?r = 141441175797104625 / 140737488355328" by simp
  have "\<lfloor>141441175797104625 / 140737488355328 :: rat\<rfloor> = 1004"
    by (rule floor_unique) simp_all
  then have f: "nat \<lfloor>141441175797104625 / 140737488355328 :: rat\<rfloor> = 1004" by simp
  have ex: "max (exponent_of ?r) (- 1022) - 52 = - 43"
    unfolding r by (simp add: exponent_of_def f ilog2_1004)
  have u: "pow2 (- 43) = 1 / 8796093022208" by (simp add: pow2_def)
  have q: "?r / (1 / 8796093022208) = 141441175797104625 / 16" by simp
  have fl: "\<lfloor>141441175797104625 / 16 :: rat\<rfloor> = 8840073487319039"
    by (rule floor_unique) simp_all
  have rd: "round_half_even (141441175797104625 / 16) = 8840073487319039"
    by (simp add: round_half_even_def Let_def fl)
  have "round_positive ?r = Fin (8840073487319039 / 2 ^ 43)"
    unfolding round_positive_def Let_def ex u q rd by simp
  then show ?thesis by (simp add: to_double_def)
qed

lemma double_1005:
  "to_double (4526117625507348 / 2 ^ 52) = Fin (4526117625507348 / 2 ^ 52)"
proof -
  let ?r = "4526117625507348 / 2 ^ 52 :: rat"
  have r: "?r = 1131529406376837 / 1125899906842624" by simp
  have "\<lfloor>1131529406376837 / 1125899906842624 :: rat\<rfloor> = 1"
    by (rule floor_unique) simp_all
  then have f: "nat \<lfloor>1131529406376837 / 1125899906842624 :: rat\<rfloor> = 1" by simp
  have ex: "max (exponent_of ?r) (- 1022) - 52 = - 52"
    unfolding r by (simp add: exponent_of_def f ilog2.simps)
  have u: "pow2 (- 52) = 1 / 4503599627370496" by (simp add: pow2_def)
  have q: "?r / (1 / 4503599627370496) = of_int 4526117625507348" by simp
  have "round_positive ?r = Fin (4526117625507348 / 2 ^ 52)"
    unfolding round_positive_def Let_def ex u q round_half_even_of_int by simp
  then show ?thesis by (simp add: to_double_def)
qed

lemma to_double_numeral:
  "to_double 1 = Fin 1" "to_double 2 = Fin 2" "to_double 1000 = Fin 1000"
  "to_double 2000 = Fin 2000"
  using to_double_whole [of 1] to_double_whole [of 2] to_double_whole [of 1000]
    to_double_whole [of 2000]
  by simp_all

section \<open>The retry loop, step by step\<close>

lemma loop_stop:
  "\<not> retryable (remote a) \<or> maxR < int (a + 1) \<Longrightarrow>
   postDonateTo_loop remote p url maxR a w = (finalResult p (remote a), [Fetch url])"
  by (subst postDonateTo_loop.simps) (auto simp: ok_def split: outcome.splits)

lemma loop_retry:
  "retryable (remote a) \<Longrightarrow> int (a + 1) \<le> maxR \<Longrightarrow>
   postDonateTo_loop remote p url maxR a w =
     (fst (postDonateTo_loop remote p url maxR (a + 1) (times_double w 2)),
      Fetch url # Sleep (times_double w 1000)
        # snd (postDonateTo_loop remote p url maxR (a + 1) (times_double w 2)))"
  by (subst postDonateTo_loop.simps) (auto simp: ok_def split: outcome.splits prod.splits)

lemma fetches_Cons [simp]:
  "fetches [] = 0"
  "fetches (Fetch u # evs) = Suc (fetches evs)"
  "fetches (Sleep ms # evs) = fetches evs"
  "fetches (Sign i msg # evs) = fetches evs"
  by (simp_all add: fetches_def)

lemma fetches_append [simp]: "fetches (xs @ ys) = fetches xs + fetches ys"
  by (simp add: fetches_def)

lemma fetches_backoffTrace [simp]: "fetches (backoffTrace url w n) = Suc n"
  by (induction n arbitrary: w) simp_all

lemma fetches_doublingTrace [simp]: "fetches (doublingTrace url s n) = Suc n"
  by (induction n arbitrary: s) simp_all

lemma waits_doublingTrace:
  "waits (doublingTrace url s n) = map (\<lambda>k. (dbl ^^ k) s) [0..<n]"
proof (induction n arbitrary: s)
  case 0
  show ?case by simp
next
  case (Suc n)
  have "map (\<lambda>k. (dbl ^^ k) s) [0..<Suc n] = s # map (\<lambda>k. (dbl ^^ Suc k) s) [0..<n]"
    by (simp add: upt_conv_Cons map_Suc_upt [symmetric] del: upt_Suc funpow.simps)
  also have "\<dots> = s # map (\<lambda>k. (dbl ^^ k) (dbl s)) [0..<n]"
    by (simp add: funpow_swap1 del: upt_Suc)
  finally show ?case using Suc.IH [of "dbl s"] by (simp del: upt_Suc)
qed

text \<open>
  Once the wait is Infinity it stays so; a wait that is a double of at least 1 is
  doubled exactly, and so is the sleep computed from it.
\<close>

lemma backoffTrace_infinite: "backoffTrace url PosInf n = doublingTrace url PosInf n"
  by (induction n) simp_all

lemma backoffTrace_doubling:
  "1 \<le> r \<Longrightarrow> to_double r = Fin r \<Longrightarrow>
   backoffTrace url (Fin r) n = doublingTrace url (to_double (r * 1000)) n"
proof (induction n arbitrary: r)
  case 0
  show ?case by simp
next
  case (Suc n)
  have ms: "1 \<le> r * 1000" using Suc.prems(1) by simp
  have next_sleep: "to_double (2 * r * 1000) = dbl (to_double (r * 1000))"
    using to_double_twice [OF ms] by (simp add: mult.assoc)
  have next_wait: "to_double (r * 2) = dbl (Fin r)"
    using to_double_twice [OF Suc.prems(1)] Suc.prems(2) by (simp add: mult.commute)
  show ?case
  proof (cases "(2::rat) ^ 1024 \<le> 2 * r")
    case True
    then have "(2::rat) ^ 1024 \<le> 2 * r * 1000" using Suc.prems(1) by simp
    then have "to_double (2 * r * 1000) = PosInf" by (rule to_double_overflow)
    with next_sleep have "dbl (to_double (r * 1000)) = PosInf" by simp
    moreover from True next_wait have "to_double (r * 2) = PosInf" by simp
    ultimately show ?thesis by (simp add: backoffTrace_infinite)
  next
    case False
    with next_wait have w: "to_double (r * 2) = Fin (2 * r)" by simp
    then have d: "to_double (2 * r) = Fin (2 * r)" by (simp add: mult.commute)
    have "1 \<le> 2 * r" using Suc.prems(1) by simp
    from Suc.IH [OF this d]
    have "backoffTrace url (Fin (2 * r)) n = doublingTrace url (dbl (to_double (r * 1000))) n"
      using next_sleep by simp
    with w show ?thesis by simp
  qed
qed

lemma loop_char:
  "\<exists>n. postDonateTo_loop remote p url maxR a w = (finalResult p (remote (a + n)), backoffTrace url w n)
     \<and> (\<forall>k<n. retryable (remote (a + k)))
     \<and> (\<not> retryable (remote (a + n)) \<or> maxR \<le> int (a + n))
     \<and> (n = 0 \<or> int (a + n) \<le> maxR)"
proof (induction "nat (maxR - int a)" arbitrary: a w rule: less_induct)
  case less
  show ?case
  proof (cases "retryable (remote a) \<and> int (a + 1) \<le> maxR")
    case False
    then have "postDonateTo_loop remote p url maxR a w = (finalResult p (remote a), [Fetch url])"
      by (intro loop_stop) auto
    with False show ?thesis by (intro exI [of _ 0]) auto
  next
    case True
    then have lt: "nat (maxR - int (a + 1)) < nat (maxR - int a)" by simp
    from less [OF lt, of "times_double w 2"] obtain n where
      eq: "postDonateTo_loop remote p url maxR (a + 1) (times_double w 2)
             = (finalResult p (remote (a + 1 + n)), backoffTrace url (times_double w 2) n)"
      and retr: "\<forall>k<n. retryable (remote (a + 1 + k))"
      and stop: "\<not> retryable (remote (a + 1 + n)) \<or> maxR \<le> int (a + 1 + n)"
      and bound: "n = 0 \<or> int (a + 1 + n) \<le> maxR"
      by blast
    have "postDonateTo_loop remote p url maxR a w
            = (finalResult p (remote (a + Suc n)), backoffTrace url w (Suc n))"
      using True eq by (simp add: loop_retry)
    moreover have "\<forall>k<Suc n. retryable (remote (a + k))"
    proof (intro allI impI)
      fix k assume "k < Suc n"
      show "retryable (remote (a + k))"
      proof (cases k)
        case 0 then show ?thesis using True by simp
      next
        case (Suc j)
        with \<open>k < Suc n\<close> retr show ?thesis by simp
      qed
    qed
    moreover have "\<not> retryable (remote (a + Suc n)) \<or> maxR \<le> int (a + Suc n)"
      using stop by simp
    moreover have "int (a + Suc n) \<le> maxR" using bound True by auto
    ultimately show ?thesis by (intro exI [of _ "Suc n"]) simp
  qed
qed

lemma postDonateTo_char:
  "\<exists>n. postDonateTo remote p url maxR bo =
          (finalResult p (remote n), backoffTrace url (Fin (max 1 bo)) n)
     \<and> (\<forall>k<n. retryable (remote k))
     \<and> (\<not> retryable (remote n) \<or> maxR \<le> int n)
     \<and> (n = 0 \<or> int n \<le> maxR)"
  using loop_char [of remote p url maxR 0 "Fin (max 1 bo)"] by (simp add: postDonateTo_def)

lemma effBackoff_ge_1: "1 \<le> effBackoff b"
  by (simp add: effBackoff_def)

lemma effMaxRetries_ge_0: "0 \<le> effMaxRetries b"
  by (simp add: effMaxRetries_def)

lemma processDonor_submit:
  assumes "signMessage env (index d) msg = Inr sig" "encodeURIComponent env sig = Inr enc"
  shows "snd (processDonor env False rc msg maxR bo m n d) =
           Sign (index d) msg #
             snd (postDonateTo (\<lambda>k. fetch env (n + k)) (JSON_parse env) (donateUrl rc (bech32 d) enc) maxR bo)"
  using assms by (simp add: processDonor_def Let_def split: prod.splits)

lemma postDonateTo_doubling:
  assumes "to_double (effBackoff b) = Fin (effBackoff b)"
  shows "\<exists>n. snd (postDonateTo remote p url maxR (effBackoff b)) =
           doublingTrace url (to_double (effBackoff b * 1000)) n"
proof -
  have m: "max 1 (effBackoff b) = effBackoff b" using effBackoff_ge_1 [of b] by simp
  obtain n where "postDonateTo remote p url maxR (effBackoff b) =
      (finalResult p (remote n), backoffTrace url (Fin (max 1 (effBackoff b))) n)"
    using postDonateTo_char [of remote p url maxR "effBackoff b"] by blast
  then have "snd (postDonateTo remote p url maxR (effBackoff b)) =
      backoffTrace url (Fin (effBackoff b)) n"
    using m by simp
  then show ?thesis
    using backoffTrace_doubling [OF effBackoff_ge_1 assms] by auto
qed

lemma example_429_429_200:
  assumes "remote 0 = Responded 429 ta" "remote 1 = Responded 429 tb" "remote 2 = Responded 200 tc"
  shows "postDonateTo remote p url 3 1 =
          (DonateResult 200 (parse_or_raw p tc),
           [Fetch url, Sleep (Fin 1000), Fetch url, Sleep (Fin 2000), Fetch url])"
proof -
  have r2: "remote (Suc (Suc 0)) = Responded 200 tc"
    using assms by (simp add: numeral_2_eq_2)
  have s2: "postDonateTo_loop remote p url 3 (Suc (Suc 0)) w =
          (DonateResult 200 (parse_or_raw p tc), [Fetch url])" for w
    using r2 loop_stop [of remote "Suc (Suc 0)" 3 p url w] by simp
  have s1: "postDonateTo_loop remote p url 3 (Suc 0) (Fin 2) =
          (DonateResult 200 (parse_or_raw p tc), [Fetch url, Sleep (Fin 2000), Fetch url])"
    using assms loop_retry [of remote "Suc 0" 3 p url "Fin 2"] s2
    by (simp add: to_double_numeral)
  have "postDonateTo_loop remote p url 3 0 (Fin 1) =
          (DonateResult 200 (parse_or_raw p tc),
           [Fetch url, Sleep (Fin 1000), Fetch url, Sleep (Fin 2000), Fetch url])"
    using assms loop_retry [of remote 0 3 p url "Fin 1"] s1
    by (simp add: to_double_numeral)
  then show ?thesis by (simp add: postDonateTo_def)
qed

section \<open>Backoff and retry bound\<close>

text \<open>
  Claim C1, as amended. Every submission of a donor waits only between attempts, never
  before the first: its trace is an attempt followed by sleep-attempt pairs. With
  \<open>initialBackoffSeconds\<close> the handler's constant, a double, the first sleep is
  \<open>initialBackoffSeconds * 1000\<close> milliseconds rounded to the nearest double, which
  is exactly \<open>initialBackoffSeconds\<close> seconds whenever that is a whole number of
  seconds with fewer than \<open>2 ^ 53\<close> milliseconds; each later sleep is exactly twice
  the one before, or Infinity once that leaves the range of doubles. When the remote
  answers 429, 429, 200 and the request has \<open>maxRetries = 3\<close>,
  \<open>initialBackoffSeconds = 1\<close>, there are exactly three attempts, with sleeps of 1000
  and 2000 milliseconds, and the success is returned.
\<close>

theorem postDonateTo_backoff_between_attempts:
  "(to_double (effBackoff b) = Fin (effBackoff b) \<longrightarrow>
      snd (postDonateTo remote p url maxR (effBackoff b)) =
        doublingTrace url (to_double (effBackoff b * 1000))
          (fetches (snd (postDonateTo remote p url maxR (effBackoff b))) - 1)
      \<and> waits (snd (postDonateTo remote p url maxR (effBackoff b))) =
          map (\<lambda>k. (dbl ^^ k) (to_double (effBackoff b * 1000)))
            [0 ..< fetches (snd (postDonateTo remote p url maxR (effBackoff b))) - 1]
      \<and> (signMessage env (index d) msg = Inr sig \<and> encodeURIComponent env sig = Inr enc \<longrightarrow>
           snd (processDonor env False rc msg maxR (effBackoff b) m n d) =
             Sign (index d) msg #
               doublingTrace (donateUrl rc (bech32 d) enc) (to_double (effBackoff b * 1000))
                 (fetches (snd (processDonor env False rc msg maxR (effBackoff b) m n d)) - 1)))
   \<and> (effBackoff b = of_nat s \<and> s * 1000 < 2 ^ 53 \<longrightarrow>
        to_double (effBackoff b) = Fin (effBackoff b)
        \<and> to_double (effBackoff b * 1000) = Fin (effBackoff b * 1000))
   \<and> (remote 0 = Responded 429 ta \<and> remote 1 = Responded 429 tb \<and> remote 2 = Responded 200 tc
        \<and> maxRetries b = JNum (Fin 3) \<and> initialBackoffSeconds b = JNum (Fin 1) \<longrightarrow>
        postDonateTo remote p url (effMaxRetries b) (effBackoff b) =
          (DonateResult 200 (parse_or_raw p tc),
           [Fetch url, Sleep (Fin 1000), Fetch url, Sleep (Fin 2000), Fetch url]))"
proof (intro conjI impI)
  assume dbl: "to_double (effBackoff b) = Fin (effBackoff b)"
  obtain k where k: "snd (postDonateTo remote p url maxR (effBackoff b)) =
      doublingTrace url (to_double (effBackoff b * 1000)) k"
    using postDonateTo_doubling [OF dbl] by blast
  show "snd (postDonateTo remote p url maxR (effBackoff b)) =
        doublingTrace url (to_double (effBackoff b * 1000))
          (fetches (snd (postDonateTo remote p url maxR (effBackoff b))) - 1)"
    by (simp add: k)
  show "waits (snd (postDonateTo remote p url maxR (effBackoff b))) =
          map (\<lambda>k. (dbl ^^ k) (to_double (effBackoff b * 1000)))
            [0 ..< fetches (snd (postDonateTo remote p url maxR (effBackoff b))) - 1]"
    by (simp add: k waits_doublingTrace del: upt_Suc)
  assume a: "signMessage env (index d) msg = Inr sig \<and> encodeURIComponent env sig = Inr enc"
  let ?url = "donateUrl rc (bech32 d) enc"
  obtain j where j: "snd (postDonateTo (\<lambda>k. fetch env (n + k)) (JSON_parse env) ?url maxR (effBackoff b)) =
      doublingTrace ?url (to_double (effBackoff b * 1000)) j"
    using postDonateTo_doubling [OF dbl] by blast
  show "snd (processDonor env False rc msg maxR (effBackoff b) m n d) =
          Sign (index d) msg #
            doublingTrace ?url (to_double (effBackoff b * 1000))
              (fetches (snd (processDonor env False rc msg maxR (effBackoff b) m n d)) - 1)"
    using a by (simp add: processDonor_submit j)
next
  assume a: "effBackoff b = of_nat s \<and> s * 1000 < 2 ^ 53"
  have "1 \<le> (of_nat s :: rat)" using a effBackoff_ge_1 [of b] by simp
  then have s1: "1 \<le> s" by simp
  then have "s < 2 ^ 53" using a by linarith
  with s1 show "to_double (effBackoff b) = Fin (effBackoff b)"
    using a to_double_whole [of s] by simp
  have "1 \<le> s * 1000" using s1 by simp
  then have "to_double (of_nat (s * 1000)) = Fin (of_nat (s * 1000))"
    using a by (intro to_double_whole) simp_all
  then show "to_double (effBackoff b * 1000) = Fin (effBackoff b * 1000)"
    using a by simp
next
  assume a: "remote 0 = Responded 429 ta \<and> remote 1 = Responded 429 tb \<and> remote 2 = Responded 200 tc
        \<and> maxRetries b = JNum (Fin 3) \<and> initialBackoffSeconds b = JNum (Fin 1)"
  then have e: "effMaxRetries b = 3" "effBackoff b = 1"
    by (simp_all add: effMaxRetries_def effBackoff_def)
  from a have "postDonateTo remote p url 3 1 =
          (DonateResult 200 (parse_or_raw p tc),
           [Fetch url, Sleep (Fin 1000), Fetch url, Sleep (Fin 2000), Fetch url])"
    by (intro example_429_429_200) simp_all
  with e show "postDonateTo remote p url (effMaxRetries b) (effBackoff b) =
          (DonateResult 200 (parse_or_raw p tc),
           [Fetch url, Sleep (Fin 1000), Fetch url, Sleep (Fin 2000), Fetch url])" by simp
qed

text \<open>
  The claim as stated fails for a backoff of 1.005 seconds: the sleep before the first
  retry is 8840073487319039 / 2 ^ 43 milliseconds, the rounded product, and not 1000
  times the supplied number.
\<close>

theorem first_wait_is_rounded:
  "to_double (4526117625507348 / 2 ^ 52) = Fin (4526117625507348 / 2 ^ 52)
   \<and> effBackoff ex_rounding_body = 4526117625507348 / 2 ^ 52
   \<and> waits (snd (postDonateTo ex_remote (JSON_parse ex_env) ''u''
                (effMaxRetries ex_rounding_body) (effBackoff ex_rounding_body))) =
       [Fin (8840073487319039 / 2 ^ 43)]
   \<and> Fin (8840073487319039 / 2 ^ 43) \<noteq> Fin (effBackoff ex_rounding_body * 1000)"
proof -
  have e: "effBackoff ex_rounding_body = 4526117625507348 / 2 ^ 52"
    "effMaxRetries ex_rounding_body = 1"
    by (simp_all add: ex_rounding_body_def effBackoff_def effMaxRetries_def)
  have r: "retryable (ex_remote 0)" "retryable (ex_remote (Suc 0))"
    by (simp_all add: ex_remote_def)
  have stop: "postDonateTo_loop ex_remote (JSON_parse ex_env) ''u'' 1 (Suc 0) w =
      (finalResult (JSON_parse ex_env) (ex_remote (Suc 0)), [Fetch ''u''])" for w
    by (rule loop_stop) simp
  have "postDonateTo_loop ex_remote (JSON_parse ex_env) ''u'' 1 0 (Fin (4526117625507348 / 2 ^ 52)) =
      (finalResult (JSON_parse ex_env) (ex_remote (Suc 0)),
       [Fetch ''u'', Sleep (to_double (4526117625507348 / 2 ^ 52 * 1000)), Fetch ''u''])"
    using loop_retry [of ex_remote 0 1 "JSON_parse ex_env" "''u''" "Fin (4526117625507348 / 2 ^ 52)"]
      r(1) stop
    by simp
  then have "waits (snd (postDonateTo ex_remote (JSON_parse ex_env) ''u'' 1 (4526117625507348 / 2 ^ 52))) =
      [to_double (4526117625507348 / 2 ^ 52 * 1000)]"
    by (simp add: postDonateTo_def)
  then have w: "waits (snd (postDonateTo ex_remote (JSON_parse ex_env) ''u''
                (effMaxRetries ex_rounding_body) (effBackoff ex_rounding_body))) =
       [Fin (8840073487319039 / 2 ^ 43)]"
    unfolding e rounded_1005_ms .
  have "Fin (8840073487319039 / 2 ^ 43) \<noteq> Fin (4526117625507348 / 2 ^ 52 * 1000)" by simp
  then have "Fin (8840073487319039 / 2 ^ 43) \<noteq> Fin (effBackoff ex_rounding_body * 1000)"
    unfolding e .
  with double_1005 e(1) w show ?thesis by (intro conjI)
qed

theorem postDonateTo_backoff_between_attempts_witness:
  "snd (processDonor ex_env False ''r'' ''m'' 3 (effBackoff ex_body) Map.empty 0 (hd ex_addresses)) =
     Sign 0 ''m'' #
       doublingTrace (donateUrl ''r'' ''addr1qqqqqqqqqqqqqqqqqqqq0'' ''sig%2B0%2F%3D'') (Fin 1000)
         (fetches (snd (processDonor ex_env False ''r'' ''m'' 3 (effBackoff ex_body) Map.empty 0 (hd ex_addresses))) - 1)
   \<and> postDonateTo ex_remote (\<lambda>txt. None :: unit option) ''u'' (effMaxRetries ex_body) (effBackoff ex_body) =
       (DonateResult 200 (RawText ''done''),
        [Fetch ''u'', Sleep (Fin 1000), Fetch ''u'', Sleep (Fin 2000), Fetch ''u''])"
proof -
  note w = postDonateTo_backoff_between_attempts [where remote = ex_remote and b = ex_body
      and env = ex_env and d = "hd ex_addresses"
      and msg = "''m''" and sig = "''sig+0/=''" and enc = "''sig%2B0%2F%3D''" and rc = "''r''"
      and maxR = 3 and m = Map.empty and n = 0 and s = 1
      and ta = "''slow down''" and tb = "''slow down''" and tc = "''done''"
      and p = "\<lambda>txt. None :: unit option" and url = "''u''"]
  have e: "effBackoff ex_body = 1" by (simp add: ex_body_def effBackoff_def)
  have whole: "effBackoff ex_body = of_nat 1 \<and> (1::nat) * 1000 < 2 ^ 53"
    by (simp add: e)
  from w whole have d: "to_double (effBackoff ex_body) = Fin (effBackoff ex_body)"
    and ms: "to_double (effBackoff ex_body * 1000) = Fin (effBackoff ex_body * 1000)"
    by blast+
  have sg: "signMessage ex_env (index (hd ex_addresses)) ''m'' = Inr ''sig+0/=''
      \<and> encodeURIComponent ex_env ''sig+0/='' = Inr ''sig%2B0%2F%3D''"
    by (simp add: ex_env_def ex_addresses_def)
  from w d sg have "snd (processDonor ex_env False ''r'' ''m'' 3 (effBackoff ex_body) Map.empty 0 (hd ex_addresses)) =
             Sign (index (hd ex_addresses)) ''m'' #
               doublingTrace (donateUrl ''r'' (bech32 (hd ex_addresses)) ''sig%2B0%2F%3D'')
                 (to_double (effBackoff ex_body * 1000))
                 (fetches (snd (processDonor ex_env False ''r'' ''m'' 3 (effBackoff ex_body) Map.empty 0 (hd ex_addresses))) - 1)"
    by blast
  then have first: "snd (processDonor ex_env False ''r'' ''m'' 3 (effBackoff ex_body) Map.empty 0 (hd ex_addresses)) =
     Sign 0 ''m'' #
       doublingTrace (donateUrl ''r'' ''addr1qqqqqqqqqqqqqqqqqqqq0'' ''sig%2B0%2F%3D'') (Fin 1000)
         (fetches (snd (processDonor ex_env False ''r'' ''m'' 3 (effBackoff ex_body) Map.empty 0 (hd ex_addresses))) - 1)"
    unfolding ms by (simp add: e ex_addresses_def)
  have ex: "ex_remote 0 = Responded 429 ''slow down'' \<and> ex_remote 1 = Responded 429 ''slow down''
      \<and> ex_remote 2 = Responded 200 ''done''
      \<and> maxRetries ex_body = JNum (Fin 3) \<and> initialBackoffSeconds ex_body = JNum (Fin 1)"
    by (simp add: ex_remote_def ex_body_def)
  from w ex have "postDonateTo ex_remote (\<lambda>txt. None :: unit option) ''u'' (effMaxRetries ex_body) (effBackoff ex_body) =
          (DonateResult 200 (parse_or_raw (\<lambda>txt. None :: unit option) ''done''),
           [Fetch ''u'', Sleep (Fin 1000), Fetch ''u'', Sleep (Fin 2000), Fetch ''u''])"
    by blast
  then have second: "postDonateTo ex_remote (\<lambda>txt. None :: unit option) ''u'' (effMaxRetries ex_body) (effBackoff ex_body) =
       (DonateResult 200 (RawText ''done''),
        [Fetch ''u'', Sleep (Fin 1000), Fetch ''u'', Sleep (Fin 2000), Fetch ''u''])"
    by (simp add: parse_or_raw_def)
  from first second show ?thesis by (intro conjI)
qed







section \<open>Eligibility, the donor loop and the consolidate reply\<close>

lemma userCount_upd [simp]:
  "userCount (m(k \<mapsto> v)) a = (if a = k then v else userCount m a)"
  by (simp add: userCount_def)

lemma userCount_empty [simp]: "userCount Map.empty a = 0"
  by (simp add: userCount_def)

lemma countReceipts_count:
  "userCount (countReceipts rs m) a =
     userCount m a + (if a = [] then 0 else spec_totalUserSolutions rs a)"
  by (induction rs arbitrary: m) (auto simp: spec_totalUserSolutions_def)

text \<open>
  Claim C5, as amended. For every list of receipts and every non-empty address string,
  the computed count equals the number of receipts with that address whose dev-fee
  flag is false; dev-fee receipts and receipts of other addresses never contribute,
  and an address without matching receipts counts zero. The empty address string
  always counts zero, whatever the receipts.
\<close>

theorem userCount_counts_user_receipts:
  "userCount (userSolutionsPerAddress receipts) addr =
     (if addr = [] then 0 else spec_totalUserSolutions receipts addr)"
  by (simp add: userSolutionsPerAddress_def countReceipts_count)

text \<open>
  The claim as stated fails at the empty address: a receipt with an empty address and
  no dev-fee flag is skipped by the loop, so the count is 0 where the claim says 1.
\<close>

theorem empty_address_never_counted:
  "userCount (userSolutionsPerAddress [\<lparr> address = [], isDevFee = False \<rparr>]) []
     \<noteq> spec_totalUserSolutions [\<lparr> address = [], isDevFee = False \<rparr>] []"
  by (simp add: userSolutionsPerAddress_def spec_totalUserSolutions_def)

theorem userCount_counts_user_receipts_witness:
  "userCount (userSolutionsPerAddress (readReceipts ex_env)) ''addr1qqqqqqqqqqqqqqqqqqqq0'' = 1"
  using userCount_counts_user_receipts [of "readReceipts ex_env" "''addr1qqqqqqqqqqqqqqqqqqqq0''"]
  by (simp add: ex_env_def spec_totalUserSolutions_def)

lemma processDonor_donor [simp]:
  "donor (fst (processDonor env dry rc msg maxR bo m n d)) = bech32 d"
  "e_index (fst (processDonor env dry rc msg maxR bo m n d)) = index d"
  by (simp_all add: processDonor_def failedEntry_def Let_def split: sum.splits prod.splits)



lemma processDonor_sign_fail:
  "signMessage env (index d) msg = Inl err \<Longrightarrow>
   processDonor env dry rc msg maxR bo m n d = (failedEntry m d err, [Sign (index d) msg])"
  by (simp add: processDonor_def)

lemma processDonor_encode_fail:
  "signMessage env (index d) msg = Inr sig \<Longrightarrow> encodeURIComponent env sig = Inl err \<Longrightarrow>
   processDonor env dry rc msg maxR bo m n d = (failedEntry m d err, [Sign (index d) msg])"
  by (simp add: processDonor_def)

lemma processDonor_dry:
  "signMessage env (index d) msg = Inr sig \<Longrightarrow> encodeURIComponent env sig = Inr enc \<Longrightarrow>
   processDonor env True rc msg maxR bo m n d =
     (\<lparr> e_index = index d, donor = bech32 d, totalUserSolutions = userCount m (bech32 d),
        signed = True, signature = Some sig,
        curl = Some (curlOf (donateUrl rc (bech32 d) enc)), status = None, response = None \<rparr>,
      [Sign (index d) msg])"
  by (simp add: processDonor_def)

lemma signCalls_append [simp]: "signCalls (xs @ ys) = signCalls xs @ signCalls ys"
  by (induction xs rule: signCalls.induct) simp_all

lemma signCalls_backoffTrace [simp]: "signCalls (backoffTrace url w n) = []"
  by (induction n arbitrary: w) simp_all

lemma signCalls_postDonateTo [simp]: "signCalls (snd (postDonateTo remote p url maxR bo)) = []"
proof -
  obtain n where "postDonateTo remote p url maxR bo =
      (finalResult p (remote n), backoffTrace url (Fin (max 1 bo)) n)"
    using postDonateTo_char [of remote p url maxR bo] by blast
  then show ?thesis by simp
qed

lemma signCalls_processDonor [simp]:
  "signCalls (snd (processDonor env dry rc msg maxR bo m n d)) = [(index d, msg)]"
proof (cases "signMessage env (index d) msg")
  case (Inl err)
  then show ?thesis by (simp add: processDonor_sign_fail)
next
  case (Inr sig)
  show ?thesis
  proof (cases "encodeURIComponent env sig")
    case (Inl err)
    with Inr show ?thesis by (simp add: processDonor_encode_fail)
  next
    case enc: (Inr enc)
    show ?thesis
    proof (cases dry)
      case True
      with Inr enc show ?thesis by (simp add: processDonor_dry)
    next
      case False
      with Inr enc show ?thesis by (simp add: processDonor_submit)
    qed
  qed
qed


lemma forDonors_donor:
  "map donor (fst (forDonors env dry rc msg maxR bo m ds results evs)) =
     map donor results @ map bech32 ds"
  by (induction ds arbitrary: results evs) (simp_all add: split_beta)

lemma forDonors_index:
  "map e_index (fst (forDonors env dry rc msg maxR bo m ds results evs)) =
     map e_index results @ map index ds"
  by (induction ds arbitrary: results evs) (simp_all add: split_beta)

lemma consolidate_POST_run:
  assumes "truthy (password b)" "typeof_string (password b)" "isValidAddr (recipientAddress b)"
    and "loadWallet env (strval (password b)) = Inr addresses"
    and "donorsOf addresses (userSolutionsPerAddress (readReceipts env))
           (strval (recipientAddress b)) (requestedIndexes (addressIndexes b) addresses) = donors"
    and "donors \<noteq> []"
    and "forDonors env (dryRun b = JBool True) (strval (recipientAddress b))
           (''Assign accumulated Scavenger rights to: '' @ strval (recipientAddress b))
           (effMaxRetries b) (effBackoff b) (userSolutionsPerAddress (readReceipts env))
           donors [] [] = (results, evs)"
  shows "success (fst (consolidate_POST env b))"
    and "results_of (fst (consolidate_POST env b)) = results"
    and "snd (consolidate_POST env b) = evs"
  using assms by (simp_all add: consolidate_POST_def Let_def)

lemma consolidate_POST_cases:
  "(results_of (fst (consolidate_POST env b)) = [] \<and> snd (consolidate_POST env b) = []
      \<and> \<not> success (fst (consolidate_POST env b)))
   \<or> (\<exists>addresses.
         truthy (password b) \<and> typeof_string (password b) \<and> isValidAddr (recipientAddress b)
         \<and> loadWallet env (strval (password b)) = Inr addresses
         \<and> donorsOf addresses (userSolutionsPerAddress (readReceipts env))
              (strval (recipientAddress b)) (requestedIndexes (addressIndexes b) addresses) \<noteq> [])"
  by (auto simp: consolidate_POST_def Let_def split: sum.splits prod.splits)


lemma forDonors_all:
  assumes "\<forall>e \<in> set results. P e"
    and "\<And>n d. d \<in> set ds \<Longrightarrow> P (fst (processDonor env dry rc msg maxR bo m n d))"
  shows "\<forall>e \<in> set (fst (forDonors env dry rc msg maxR bo m ds results evs)). P e"
  using assms
proof (induction ds arbitrary: results evs)
  case Nil
  then show ?case by simp
next
  case (Cons d ds)
  let ?step = "processDonor env dry rc msg maxR bo m (fetches evs) d"
  have "\<forall>e \<in> set (results @ [fst ?step]). P e"
    using Cons.prems by simp
  then have "\<forall>e \<in> set (fst (forDonors env dry rc msg maxR bo m ds (results @ [fst ?step]) (evs @ snd ?step))). P e"
    using Cons.prems(2) by (intro Cons.IH) simp_all
  then show ?case by (simp add: split_beta)
qed



lemma fetches_signs [simp]: "fetches (map (\<lambda>d. Sign (f d) msg) ds) = 0"
  by (induction ds) simp_all

lemma waits_signs [simp]: "waits (map (\<lambda>d. Sign (f d) msg) ds) = []"
  by (induction ds) simp_all

lemma donorsOf_not_recipient: "d \<in> set (donorsOf addresses m rc idxs) \<Longrightarrow> bech32 d \<noteq> rc"
  by (simp add: donorsOf_def)

lemma typeof_string_strval: "typeof_string v \<Longrightarrow> v = JStr (strval v)"
  by (cases v) simp_all

lemma ex_counts:
  "userCount (userSolutionsPerAddress (readReceipts ex_env)) ''addr1qqqqqqqqqqqqqqqqqqqq0'' = 1"
  "userCount (userSolutionsPerAddress (readReceipts ex_env)) ''addr1qqqqqqqqqqqqqqqqqqqq1'' = 1"
  by (simp_all add: userSolutionsPerAddress_def countReceipts_count spec_totalUserSolutions_def ex_env_def)

lemma ex_donors:
  "donorsOf ex_addresses (userSolutionsPerAddress (readReceipts ex_env))
     ''addr1qqqqqqqqqqqqqqqqqqqq9'' (requestedIndexes None ex_addresses) = ex_addresses"
proof -
  have "List.map_filter (findAddress ex_addresses) (requestedIndexes None ex_addresses) = ex_addresses"
    by (simp add: requestedIndexes_def ex_addresses_def findAddress_def List.map_filter_def)
  then show ?thesis
    using ex_counts by (simp add: donorsOf_def) (simp add: ex_addresses_def)
qed

lemma ex_preflight:
  "truthy (password ex_body)" "typeof_string (password ex_body)"
  "isValidAddr (recipientAddress ex_body)"
  "loadWallet ex_env (strval (password ex_body)) = Inr ex_addresses"
  "strval (recipientAddress ex_body) = ''addr1qqqqqqqqqqqqqqqqqqqq9''"
  "addressIndexes ex_body = None"
  by (simp_all add: ex_body_def ex_env_def isValidAddr_def startsWith_def)



lemma ex_donors_body:
  "donorsOf ex_addresses (userSolutionsPerAddress (readReceipts ex_env))
     (strval (recipientAddress ex_body)) (requestedIndexes (addressIndexes ex_body) ex_addresses)
   = ex_addresses"
  using ex_donors by (simp add: ex_preflight)

lemma ex_addresses_nonempty: "ex_addresses \<noteq> []"
  by (simp add: ex_addresses_def)


lemma ex_proofs_run:
  "proofs_POST ex_env ex_proofs_body =
     (ProofSet ''prove-0'' 1
        [\<lparr> p_index = 0, p_address = ''addr1qqqqqqqqqqqqqqqqqqqq0'', p_signature = ''sig+0/='',
           p_totalUserSolutions = 1, p_publicKeyHex = Some ''a0'' \<rparr>]
        ''Submit these proofs to the consolidation portal. If the portal provides its own challenge string, re-run with that exact value.'',
      [Sign 0 ''prove-0''])"
proof -
  have ch: "resolveChallenge (challenge ex_proofs_body) (targetAddress ex_proofs_body) (toISOString ex_env)
          = Some ''prove-0''"
    by (simp add: ex_proofs_body_def resolveChallenge_def trim_def is_space_def)
  have lw: "loadWallet ex_env (strval (password ex_proofs_body)) = Inr ex_addresses"
    by (simp add: ex_proofs_body_def ex_body_def ex_env_def)
  have idx: "requestedIndexes (addressIndexes ex_proofs_body) ex_addresses = [0]"
    by (simp add: ex_proofs_body_def requestedIndexes_def)
  have inv: "0 \<in> index ` set ex_addresses"
    by (simp add: ex_addresses_def)
  have f0: "findAddress ex_addresses 0 =
      Some \<lparr> index = 0, bech32 = ''addr1qqqqqqqqqqqqqqqqqqqq0'', publicKeyHex = ''a0'' \<rparr>"
    by (simp add: findAddress_def ex_addresses_def)
  have el: "filterEligible ex_addresses (userSolutionsPerAddress (readReceipts ex_env)) [0] = Inr [0]"
    by (simp add: f0 ex_counts)
  have sg: "signMessage ex_env 0 ''prove-0'' = Inr ''sig+0/=''"
    by (simp add: ex_env_def)
  have pw: "typeof_string (password ex_proofs_body)" "strval (password ex_proofs_body) \<noteq> []"
    "includePublicKey ex_proofs_body \<noteq> JBool False"
    by (simp_all add: ex_proofs_body_def ex_body_def)
  show ?thesis
    by (simp add: proofs_POST_def ch lw idx inv el pw f0 sg ex_counts)
qed


text \<open>
  Claim C4. No result entry of the consolidate flow has the recipient address as its
  donor. The proofs flow does not look at \<open>recipientAddress\<close> at all, and there is a
  request for which it proves ownership of the very address named as recipient.
\<close>

theorem consolidate_never_self_donates:
  "(\<forall>e \<in> set (results_of (fst (consolidate_POST env b))). JStr (donor e) \<noteq> recipientAddress b)
   \<and> proofs_POST env (b\<lparr> recipientAddress := r \<rparr>) = proofs_POST env b
   \<and> (\<exists>b'. \<exists>p \<in> set (proofs_of (fst (proofs_POST ex_env b'))). JStr (p_address p) = recipientAddress b')"
proof (intro conjI)
  show "\<forall>e \<in> set (results_of (fst (consolidate_POST env b))). JStr (donor e) \<noteq> recipientAddress b"
  proof (cases "results_of (fst (consolidate_POST env b)) = []")
    case True
    then show ?thesis by simp
  next
    case False
    let ?m = "userSolutionsPerAddress (readReceipts env)"
    let ?rc = "strval (recipientAddress b)"
    let ?msg = "''Assign accumulated Scavenger rights to: '' @ ?rc"
    from False consolidate_POST_cases [of env b] obtain addresses where
      pre: "truthy (password b)" "typeof_string (password b)" "isValidAddr (recipientAddress b)"
        "loadWallet env (strval (password b)) = Inr addresses"
      and ne: "donorsOf addresses ?m ?rc (requestedIndexes (addressIndexes b) addresses) \<noteq> []"
      by blast
    let ?donors = "donorsOf addresses ?m ?rc (requestedIndexes (addressIndexes b) addresses)"
    let ?run = "forDonors env (dryRun b = JBool True) ?rc ?msg (effMaxRetries b) (effBackoff b) ?m ?donors [] []"
    have "results_of (fst (consolidate_POST env b)) = fst ?run"
      using consolidate_POST_run(2) [OF pre refl ne, of "fst ?run" "snd ?run"] by simp
    then have "map donor (results_of (fst (consolidate_POST env b))) = map bech32 ?donors"
      by (simp add: forDonors_donor)
    then have "set (map donor (results_of (fst (consolidate_POST env b)))) = bech32 ` set ?donors"
      by simp
    then have "\<forall>e \<in> set (results_of (fst (consolidate_POST env b))). donor e \<noteq> ?rc"
      using donorsOf_not_recipient [of _ addresses ?m ?rc] by (metis (no_types, lifting) image_iff list.set_map)
    moreover obtain s where "recipientAddress b = JStr s"
      using pre(3) by (cases "recipientAddress b") (simp_all add: isValidAddr_def)
    ultimately show ?thesis by simp
  qed
  show "proofs_POST env (b\<lparr> recipientAddress := r \<rparr>) = proofs_POST env b"
    by (simp add: proofs_POST_def cong: option.case_cong sum.case_cong)
  have "JStr ''addr1qqqqqqqqqqqqqqqqqqqq0'' = recipientAddress ex_proofs_body"
    by (simp add: ex_proofs_body_def)
  then have "\<exists>p \<in> set (proofs_of (fst (proofs_POST ex_env ex_proofs_body))).
      JStr (p_address p) = recipientAddress ex_proofs_body"
    by (simp add: ex_proofs_run)
  then show "\<exists>b'. \<exists>p \<in> set (proofs_of (fst (proofs_POST ex_env b'))). JStr (p_address p) = recipientAddress b'"
    by blast
qed


lemma ex_results_donors:
  "map donor (results_of (fst (consolidate_POST ex_env (ex_body\<lparr> dryRun := v \<rparr>)))) =
     [''addr1qqqqqqqqqqqqqqqqqqqq0'', ''addr1qqqqqqqqqqqqqqqqqqqq1'']"
proof -
  let ?b = "ex_body\<lparr> dryRun := v \<rparr>"
  let ?m = "userSolutionsPerAddress (readReceipts ex_env)"
  let ?rc = "strval (recipientAddress ?b)"
  let ?run = "forDonors ex_env (dryRun ?b = JBool True) ?rc
      (''Assign accumulated Scavenger rights to: '' @ ?rc) (effMaxRetries ?b) (effBackoff ?b) ?m
      ex_addresses [] []"
  have pre: "truthy (password ?b)" "typeof_string (password ?b)" "isValidAddr (recipientAddress ?b)"
    "loadWallet ex_env (strval (password ?b)) = Inr ex_addresses"
    using ex_preflight by simp_all
  have d: "donorsOf ex_addresses ?m ?rc (requestedIndexes (addressIndexes ?b) ex_addresses) = ex_addresses"
    using ex_donors_body by simp
  have "results_of (fst (consolidate_POST ex_env ?b)) = fst ?run"
    using consolidate_POST_run(2) [OF pre d ex_addresses_nonempty, of "fst ?run" "snd ?run"] by simp
  then show ?thesis by (simp add: forDonors_donor) (simp add: ex_addresses_def)
qed

theorem consolidate_never_self_donates_witness:
  "results_of (fst (consolidate_POST ex_env ex_body)) \<noteq> []
   \<and> JStr (donor (hd (results_of (fst (consolidate_POST ex_env ex_body))))) \<noteq> recipientAddress ex_body"
proof -
  have ne: "results_of (fst (consolidate_POST ex_env ex_body)) \<noteq> []"
    using ex_results_donors [of "dryRun ex_body"] by auto
  then have "hd (results_of (fst (consolidate_POST ex_env ex_body)))
      \<in> set (results_of (fst (consolidate_POST ex_env ex_body)))" by simp
  with consolidate_never_self_donates [of ex_env ex_body] ne show ?thesis by blast
qed







section \<open>The proofs flow, unknown indexes and empty donor sets\<close>

lemma findAddress_None: "findAddress addresses i = None \<longleftrightarrow> i \<notin> index ` set addresses"
  by (auto simp: findAddress_def find_None_iff)

lemma findAddress_Some:
  "findAddress addresses i = Some a \<Longrightarrow> a \<in> set addresses \<and> index a = i"
  by (auto simp: findAddress_def find_Some_iff)

lemma filterEligible_valid:
  "set idxs \<subseteq> index ` set addresses \<Longrightarrow>
   filterEligible addresses m idxs = Inr (eligibleIndexes addresses m idxs)"
proof (induction idxs)
  case Nil
  show ?case by (simp add: eligibleIndexes_def)
next
  case (Cons i idxs)
  then have "findAddress addresses i \<noteq> None" by (simp add: findAddress_None)
  then obtain a where a: "findAddress addresses i = Some a" by auto
  from Cons have "filterEligible addresses m idxs = Inr (eligibleIndexes addresses m idxs)" by simp
  with a show ?case by (simp add: eligibleIndexes_def)
qed

lemma produceProofs_messages:
  "\<forall>c \<in> set (signCalls evs). snd c = ch \<Longrightarrow>
   \<forall>c \<in> set (signCalls (snd (produceProofs env inc addresses m ch idxs proofs evs))). snd c = ch"
proof (induction idxs arbitrary: proofs evs)
  case Nil
  then show ?case by simp
next
  case (Cons i idxs)
  have step: "\<forall>c \<in> set (signCalls (evs @ [Sign i ch])). snd c = ch"
    using Cons.prems by simp
  show ?case
  proof (cases "signMessage env i ch")
    case (Inl err)
    with step show ?thesis by simp
  next
    case (Inr sig)
    show ?thesis
    proof (cases "findAddress addresses i")
      case None
      with Inr step show ?thesis by simp
    next
      case (Some a)
      with Inr Cons.IH [OF step] show ?thesis by simp
    qed
  qed
qed

lemma proofs_POST_events:
  "resolveChallenge (challenge b) (targetAddress b) (toISOString env) = Some ch \<Longrightarrow>
   snd (proofs_POST env b) = []
   \<or> (\<exists>inc addresses m idxs.
         snd (proofs_POST env b) = snd (produceProofs env inc addresses m ch idxs [] []))"
  by (auto simp: proofs_POST_def Let_def split_beta split: sum.splits)

lemma proofs_POST_signs:
  assumes "resolveChallenge (challenge b) (targetAddress b) (toISOString env) = Some ch"
  shows "\<forall>c \<in> set (signCalls (snd (proofs_POST env b))). snd c = ch"
proof -
  from proofs_POST_events [OF assms] show ?thesis
  proof (elim disjE exE)
    assume "snd (proofs_POST env b) = []"
    then show ?thesis by simp
  next
    fix inc addresses m idxs
    assume e: "snd (proofs_POST env b) = snd (produceProofs env inc addresses m ch idxs [] [])"
    show ?thesis unfolding e by (rule produceProofs_messages) simp
  qed
qed

lemma proofs_POST_challenge:
  "success (fst (proofs_POST env b)) \<Longrightarrow>
   challenge_of (fst (proofs_POST env b)) =
     resolveChallenge (challenge b) (targetAddress b) (toISOString env)"
  by (auto simp: proofs_POST_def Let_def split: sum.splits prod.splits option.splits if_splits)

lemma trim_clean:
  assumes "s \<noteq> []" "\<not> is_space (hd s)" "\<not> is_space (last s)"
  shows "trim s = s"
proof -
  from assms have 1: "dropWhile is_space s = s" by (cases s) simp_all
  from assms have "rev s \<noteq> []" "\<not> is_space (hd (rev s))" by (simp_all add: hd_rev)
  then have "dropWhile is_space (rev s) = rev s" by (cases "rev s") simp_all
  with 1 show ?thesis by (simp add: trim_def)
qed

text \<open>
  Claim C8, as amended. When the caller supplies a challenge string that is not empty
  after trimming, the challenge signed and returned is that string with leading and
  trailing white space removed; it is the supplied string character for character when
  the string neither starts nor ends with white space. When no such challenge is given,
  a successful reply carries the synthesized
  \<open>scavenger-consolidate|target=<trimmed targetAddress>|ts=<timestamp>\<close>.
\<close>

theorem proofs_challenge_trimmed_or_synthesized:
  "(challenge b = JStr s \<and> trim s \<noteq> [] \<longrightarrow>
      (success (fst (proofs_POST env b)) \<longrightarrow>
         challenge_of (fst (proofs_POST env b)) = Some (trim s))
      \<and> (\<forall>c \<in> set (signCalls (snd (proofs_POST env b))). snd c = trim s))
   \<and> (s \<noteq> [] \<and> \<not> is_space (hd s) \<and> \<not> is_space (last s) \<longrightarrow> trim s = s)
   \<and> ((\<forall>s'. challenge b = JStr s' \<longrightarrow> trim s' = []) \<and> success (fst (proofs_POST env b)) \<longrightarrow>
        (\<exists>t. targetAddress b = JStr t \<and> trim t \<noteq> []
           \<and> challenge_of (fst (proofs_POST env b)) =
               Some (''scavenger-consolidate|target='' @ trim t @ ''|ts='' @ toISOString env)))"
proof (intro conjI impI)
  assume a: "challenge b = JStr s \<and> trim s \<noteq> []"
  then have r: "resolveChallenge (challenge b) (targetAddress b) (toISOString env) = Some (trim s)"
    by (simp add: resolveChallenge_def)
  show "\<forall>c \<in> set (signCalls (snd (proofs_POST env b))). snd c = trim s"
    using proofs_POST_signs [OF r] .
  assume "success (fst (proofs_POST env b))"
  then show "challenge_of (fst (proofs_POST env b)) = Some (trim s)"
    using r by (simp add: proofs_POST_challenge)
next
  assume "s \<noteq> [] \<and> \<not> is_space (hd s) \<and> \<not> is_space (last s)"
  then show "trim s = s" by (simp add: trim_clean)
next
  assume a: "(\<forall>s'. challenge b = JStr s' \<longrightarrow> trim s' = []) \<and> success (fst (proofs_POST env b))"
  then have no: "\<not> (typeof_string (challenge b) \<and> length (trim (strval (challenge b))) > 0)"
    by (cases "challenge b") simp_all
  from a have c: "challenge_of (fst (proofs_POST env b)) =
     resolveChallenge (challenge b) (targetAddress b) (toISOString env)"
    by (simp add: proofs_POST_challenge)
  from a have "resolveChallenge (challenge b) (targetAddress b) (toISOString env) \<noteq> None"
    by (auto simp: proofs_POST_def split: option.splits if_splits)
  with c no have t: "typeof_string (targetAddress b) \<and> length (trim (strval (targetAddress b))) > 0"
    by (auto simp: resolveChallenge_def split: if_splits)
  then obtain t where "targetAddress b = JStr t" by (cases "targetAddress b") simp_all
  with t c no show "\<exists>t. targetAddress b = JStr t \<and> trim t \<noteq> []
           \<and> challenge_of (fst (proofs_POST env b)) =
               Some (''scavenger-consolidate|target='' @ trim t @ ''|ts='' @ toISOString env)"
    by (simp add: resolveChallenge_def)
qed

text \<open>
  The claim as stated fails for a challenge with surrounding white space: the challenge
  signed and returned is the trimmed one, not the supplied one.
\<close>

theorem proofs_challenge_not_verbatim:
  "challenge ex_proofs_body = JStr '' prove-0 ''
   \<and> challenge_of (fst (proofs_POST ex_env ex_proofs_body)) = Some ''prove-0''
   \<and> signCalls (snd (proofs_POST ex_env ex_proofs_body)) = [(0, ''prove-0'')]
   \<and> '' prove-0 '' \<noteq> ''prove-0''"
  by (simp add: ex_proofs_run) (simp add: ex_proofs_body_def)


lemma ex_target_success:
  "success (fst (proofs_POST ex_env ex_target_body))"
proof -
  obtain ch where ch: "resolveChallenge (challenge ex_target_body) (targetAddress ex_target_body)
      (toISOString ex_env) = Some ch"
    by (simp add: ex_target_body_def ex_body_def resolveChallenge_def trim_def is_space_def)
  have lw: "loadWallet ex_env (strval (password ex_target_body)) = Inr ex_addresses"
    by (simp add: ex_target_body_def ex_body_def ex_env_def)
  have idx: "requestedIndexes (addressIndexes ex_target_body) ex_addresses = [0]"
    by (simp add: ex_target_body_def requestedIndexes_def)
  have inv: "0 \<in> index ` set ex_addresses"
    by (simp add: ex_addresses_def)
  have f0: "findAddress ex_addresses 0 =
      Some \<lparr> index = 0, bech32 = ''addr1qqqqqqqqqqqqqqqqqqqq0'', publicKeyHex = ''a0'' \<rparr>"
    by (simp add: findAddress_def ex_addresses_def)
  have el: "filterEligible ex_addresses (userSolutionsPerAddress (readReceipts ex_env)) [0] = Inr [0]"
    by (simp add: f0 ex_counts)
  have sg: "\<And>msg. signMessage ex_env 0 msg = Inr ''sig+0/=''"
    by (simp add: ex_env_def)
  have pw: "typeof_string (password ex_target_body)" "strval (password ex_target_body) \<noteq> []"
    by (simp_all add: ex_target_body_def ex_body_def)
  show ?thesis
    by (simp add: proofs_POST_def ch lw idx inv el pw f0 sg ex_counts)
qed

theorem proofs_challenge_trimmed_or_synthesized_witness:
  "challenge_of (fst (proofs_POST ex_env ex_proofs_body)) = Some ''prove-0''
   \<and> trim ''prove-0'' = ''prove-0''
   \<and> challenge_of (fst (proofs_POST ex_env ex_target_body)) =
       Some ''scavenger-consolidate|target=addr1qqqqqqqqqqqqqqqqqqqq9|ts=2025-11-01T00:00:00.000Z''"
proof (intro conjI)
  have c: "challenge ex_proofs_body = JStr '' prove-0 '' \<and> trim '' prove-0 '' \<noteq> []"
    by (simp add: ex_proofs_body_def trim_def is_space_def)
  have s: "success (fst (proofs_POST ex_env ex_proofs_body))"
    by (simp add: ex_proofs_run)
  have t: "trim '' prove-0 '' = ''prove-0''" by (simp add: trim_def is_space_def)
  from proofs_challenge_trimmed_or_synthesized [of ex_proofs_body "'' prove-0 ''" ex_env] c s
  have "challenge_of (fst (proofs_POST ex_env ex_proofs_body)) = Some (trim '' prove-0 '')"
    by blast
  then show "challenge_of (fst (proofs_POST ex_env ex_proofs_body)) = Some ''prove-0''"
    unfolding t .
next
  have "''prove-0'' \<noteq> [] \<and> \<not> is_space (hd ''prove-0'') \<and> \<not> is_space (last ''prove-0'')"
    by (simp add: is_space_def)
  with proofs_challenge_trimmed_or_synthesized [of ex_proofs_body "''prove-0''" ex_env] show "trim ''prove-0'' = ''prove-0''"
    by blast
next
  have n: "\<forall>s'. challenge ex_target_body = JStr s' \<longrightarrow> trim s' = []"
    by (simp add: ex_target_body_def ex_body_def)
  have ta: "targetAddress ex_target_body = JStr '' addr1qqqqqqqqqqqqqqqqqqqq9''"
    by (simp add: ex_target_body_def)
  have tr: "trim '' addr1qqqqqqqqqqqqqqqqqqqq9'' = ''addr1qqqqqqqqqqqqqqqqqqqq9''"
    by (simp add: trim_def is_space_def)
  have ts: "toISOString ex_env = ''2025-11-01T00:00:00.000Z''"
    by (simp add: ex_env_def)
  from proofs_challenge_trimmed_or_synthesized [of ex_target_body "[]" ex_env] n ex_target_success
  obtain t where t1: "targetAddress ex_target_body = JStr t"
    and t2: "challenge_of (fst (proofs_POST ex_env ex_target_body)) =
       Some (''scavenger-consolidate|target='' @ trim t @ ''|ts='' @ toISOString ex_env)"
    by blast
  from t1 ta have "t = '' addr1qqqqqqqqqqqqqqqqqqqq9''" by simp
  with t2 show "challenge_of (fst (proofs_POST ex_env ex_target_body)) =
       Some ''scavenger-consolidate|target=addr1qqqqqqqqqqqqqqqqqqqq9|ts=2025-11-01T00:00:00.000Z''"
    by (simp add: tr ts)
qed

lemma found_addresses:
  "set (List.map_filter (findAddress addresses) idxs) \<subseteq> set addresses"
proof (induction idxs)
  case Nil
  show ?case by simp
next
  case (Cons i idxs)
  then show ?case
    by (cases "findAddress addresses i") (auto dest: findAddress_Some)
qed

lemma donorsOf_no_solutions:
  assumes "\<forall>a \<in> set addresses. userCount m (bech32 a) = 0"
  shows "donorsOf addresses m rc idxs = []"
proof -
  have "\<forall>a \<in> set (filter (\<lambda>a. bech32 a \<noteq> rc) (List.map_filter (findAddress addresses) idxs)).
          \<not> 0 < userCount m (bech32 a)"
    using assms found_addresses [of addresses idxs] by auto
  then show ?thesis
    unfolding donorsOf_def filter_empty_conv by simp
qed

lemma eligibleIndexes_no_solutions:
  "\<forall>a \<in> set addresses. userCount m (bech32 a) = 0 \<Longrightarrow> eligibleIndexes addresses m idxs = []"
  by (auto simp: eligibleIndexes_def filter_empty_conv split: option.splits dest: findAddress_Some)

lemma proofs_POST_no_eligible:
  assumes "loadWallet env (strval (password b)) = Inr addresses"
    and "eligibleIndexes addresses (userSolutionsPerAddress (readReceipts env))
           (requestedIndexes (addressIndexes b) addresses) = []"
  shows "\<not> success (fst (proofs_POST env b))" and "snd (proofs_POST env b) = []"
    and "typeof_string (password b) \<and> strval (password b) \<noteq> []
         \<and> resolveChallenge (challenge b) (targetAddress b) (toISOString env) \<noteq> None
         \<and> set (requestedIndexes (addressIndexes b) addresses) \<subseteq> index ` set addresses
         \<Longrightarrow> fst (proofs_POST env b) =
               Failure 400 ''No eligible addresses to sign (no addresses with user solutions)''"
proof -
  let ?idx = "requestedIndexes (addressIndexes b) addresses"
  let ?m = "userSolutionsPerAddress (readReceipts env)"
  have v: "filter (\<lambda>i. i \<notin> index ` set addresses) ?idx = [] \<Longrightarrow>
           filterEligible addresses ?m ?idx = Inr []"
    using filterEligible_valid [of ?idx addresses ?m] assms(2)
    by (auto simp: filter_empty_conv)
  show "\<not> success (fst (proofs_POST env b))" and "snd (proofs_POST env b) = []"
    using assms(1) v by (auto simp: proofs_POST_def Let_def split: option.splits)
  assume "typeof_string (password b) \<and> strval (password b) \<noteq> []
         \<and> resolveChallenge (challenge b) (targetAddress b) (toISOString env) \<noteq> None
         \<and> set ?idx \<subseteq> index ` set addresses"
  moreover from this have "filter (\<lambda>i. i \<notin> index ` set addresses) ?idx = []"
    by (auto simp: filter_empty_conv)
  ultimately show "fst (proofs_POST env b) =
               Failure 400 ''No eligible addresses to sign (no addresses with user solutions)''"
    using assms(1) v by (auto simp: proofs_POST_def Let_def)
qed

text \<open>
  Claim C9. Once the wallet is unlocked: when the donor set of the consolidate flow is
  empty the handler fails and has made no signing call, no network call and no sleep,
  and with a well-formed password and recipient the failure is status 400 with the
  message about donor addresses; likewise for the proofs flow and its eligible indexes,
  with its own status 400 message. Both sets are empty whenever every derived address
  has zero user solutions.
\<close>

theorem empty_donor_set_fails_without_effects:
  assumes "loadWallet env (strval (password b)) = Inr addresses"
    and "m = userSolutionsPerAddress (readReceipts env)"
    and "idxs = requestedIndexes (addressIndexes b) addresses"
  shows
    "(donorsOf addresses m (strval (recipientAddress b)) idxs = [] \<longrightarrow>
        \<not> success (fst (consolidate_POST env b)) \<and> snd (consolidate_POST env b) = []
        \<and> (truthy (password b) \<and> typeof_string (password b) \<and> isValidAddr (recipientAddress b) \<longrightarrow>
             fst (consolidate_POST env b) = Failure 400 ''No donor addresses with user solutions''))
     \<and> (eligibleIndexes addresses m idxs = [] \<longrightarrow>
        \<not> success (fst (proofs_POST env b)) \<and> snd (proofs_POST env b) = []
        \<and> (typeof_string (password b) \<and> strval (password b) \<noteq> []
             \<and> resolveChallenge (challenge b) (targetAddress b) (toISOString env) \<noteq> None
             \<and> set idxs \<subseteq> index ` set addresses \<longrightarrow>
             fst (proofs_POST env b) =
               Failure 400 ''No eligible addresses to sign (no addresses with user solutions)''))
     \<and> ((\<forall>a \<in> set addresses. userCount m (bech32 a) = 0) \<longrightarrow>
          donorsOf addresses m (strval (recipientAddress b)) idxs = []
          \<and> eligibleIndexes addresses m idxs = [])"
proof (intro conjI impI)
  assume d: "donorsOf addresses m (strval (recipientAddress b)) idxs = []"
  show "\<not> success (fst (consolidate_POST env b))" and "snd (consolidate_POST env b) = []"
    using assms d by (simp_all add: consolidate_POST_def Let_def)
  assume "truthy (password b) \<and> typeof_string (password b) \<and> isValidAddr (recipientAddress b)"
  then show "fst (consolidate_POST env b) = Failure 400 ''No donor addresses with user solutions''"
    using assms d by (simp add: consolidate_POST_def Let_def)
next
  assume e: "eligibleIndexes addresses m idxs = []"
  then have e': "eligibleIndexes addresses (userSolutionsPerAddress (readReceipts env))
           (requestedIndexes (addressIndexes b) addresses) = []"
    using assms by simp
  show "\<not> success (fst (proofs_POST env b))" and "snd (proofs_POST env b) = []"
    using proofs_POST_no_eligible(1,2) [OF assms(1) e'] by simp_all
  assume "typeof_string (password b) \<and> strval (password b) \<noteq> []
             \<and> resolveChallenge (challenge b) (targetAddress b) (toISOString env) \<noteq> None
             \<and> set idxs \<subseteq> index ` set addresses"
  then show "fst (proofs_POST env b) =
               Failure 400 ''No eligible addresses to sign (no addresses with user solutions)''"
    using proofs_POST_no_eligible(3) [OF assms(1) e'] assms(3) by simp
next
  assume z: "\<forall>a \<in> set addresses. userCount m (bech32 a) = 0"
  then show "donorsOf addresses m (strval (recipientAddress b)) idxs = []"
    by (rule donorsOf_no_solutions)
  from z show "eligibleIndexes addresses m idxs = []"
    by (rule eligibleIndexes_no_solutions)
qed


theorem empty_donor_set_fails_without_effects_witness:
  "consolidate_POST (ex_env\<lparr> readReceipts := [] \<rparr>) ex_body =
     (Failure 400 ''No donor addresses with user solutions'', [])
   \<and> proofs_POST (ex_env\<lparr> readReceipts := [] \<rparr>) ex_proofs_body =
     (Failure 400 ''No eligible addresses to sign (no addresses with user solutions)'', [])"
proof -
  let ?env = "ex_env\<lparr> readReceipts := [] \<rparr>"
  have z: "\<forall>a \<in> set ex_addresses. userCount (userSolutionsPerAddress (readReceipts ?env)) (bech32 a) = 0"
    by (simp add: userSolutionsPerAddress_def)
  have lw1: "loadWallet ?env (strval (password ex_body)) = Inr ex_addresses"
    using ex_preflight(4) by (simp add: ex_env_def)
  have lw2: "loadWallet ?env (strval (password ex_proofs_body)) = Inr ex_addresses"
    using ex_preflight(4) by (simp add: ex_env_def ex_proofs_body_def)
  note c = empty_donor_set_fails_without_effects [OF lw1 refl refl]
  note p = empty_donor_set_fails_without_effects [OF lw2 refl refl]
  have pre: "truthy (password ex_body) \<and> typeof_string (password ex_body)
      \<and> isValidAddr (recipientAddress ex_body)"
    using ex_preflight by simp
  have ppre: "typeof_string (password ex_proofs_body) \<and> strval (password ex_proofs_body) \<noteq> []
      \<and> resolveChallenge (challenge ex_proofs_body) (targetAddress ex_proofs_body) (toISOString ?env) \<noteq> None
      \<and> set (requestedIndexes (addressIndexes ex_proofs_body) ex_addresses) \<subseteq> index ` set ex_addresses"
    by (simp add: ex_proofs_body_def ex_body_def resolveChallenge_def trim_def is_space_def
        requestedIndexes_def ex_addresses_def)
  from c z pre have "fst (consolidate_POST ?env ex_body) =
      Failure 400 ''No donor addresses with user solutions''
      \<and> snd (consolidate_POST ?env ex_body) = []"
    by blast
  moreover from p z ppre have "fst (proofs_POST ?env ex_proofs_body) =
      Failure 400 ''No eligible addresses to sign (no addresses with user solutions)''
      \<and> snd (proofs_POST ?env ex_proofs_body) = []"
    by blast
  ultimately show ?thesis by (simp add: prod_eq_iff)
qed

lemma donorsOf_subset: "set (donorsOf addresses m rc idxs) \<subseteq> set addresses"
  using found_addresses [of addresses idxs] by (auto simp: donorsOf_def)

lemma consolidate_entries_known:
  assumes "loadWallet env (strval (password b)) = Inr addresses"
  shows "\<forall>e \<in> set (results_of (fst (consolidate_POST env b))).
           \<exists>a \<in> set addresses. index a = e_index e \<and> bech32 a = donor e"
proof (cases "results_of (fst (consolidate_POST env b)) = []")
  case True
  then show ?thesis by simp
next
  case False
  let ?m = "userSolutionsPerAddress (readReceipts env)"
  let ?rc = "strval (recipientAddress b)"
  let ?msg = "''Assign accumulated Scavenger rights to: '' @ ?rc"
  from False consolidate_POST_cases [of env b] assms have
    pre: "truthy (password b)" "typeof_string (password b)" "isValidAddr (recipientAddress b)"
    and ne: "donorsOf addresses ?m ?rc (requestedIndexes (addressIndexes b) addresses) \<noteq> []"
    by auto
  let ?donors = "donorsOf addresses ?m ?rc (requestedIndexes (addressIndexes b) addresses)"
  let ?run = "forDonors env (dryRun b = JBool True) ?rc ?msg (effMaxRetries b) (effBackoff b) ?m ?donors [] []"
  have res: "results_of (fst (consolidate_POST env b)) = fst ?run"
    using consolidate_POST_run(2) [OF pre assms refl ne, of "fst ?run" "snd ?run"] by simp
  let ?P = "\<lambda>e. \<exists>a \<in> set addresses. index a = e_index e \<and> bech32 a = donor e"
  have "\<forall>e \<in> set (fst ?run). ?P e"
  proof (rule forDonors_all)
    show "\<forall>e \<in> set []. ?P e" by simp
  next
    fix n d
    assume "d \<in> set ?donors"
    then have "d \<in> set addresses" using donorsOf_subset by blast
    then show "?P (fst (processDonor env (dryRun b = JBool True) ?rc ?msg (effMaxRetries b) (effBackoff b) ?m n d))"
      by (intro bexI [of _ d]) simp_all
  qed
  then show ?thesis unfolding res .
qed

lemma proofs_POST_invalid:
  assumes "typeof_string (password b)" and "strval (password b) \<noteq> []"
    and "resolveChallenge (challenge b) (targetAddress b) (toISOString env) = Some ch"
    and "loadWallet env (strval (password b)) = Inr addresses"
    and "invalid \<noteq> []"
    and "filter (\<lambda>i. i \<notin> set (map index addresses))
           (requestedIndexes (addressIndexes b) addresses) = invalid"
  shows "proofs_POST env b =
        (Failure 400 (''Invalid address indexes: ''
                      @ join '', '' (map (indexToString (toString_large env)) invalid)), [])"
  using assms by (simp add: proofs_POST_def Let_def)

text \<open>
  Claim C3, as amended. In the proofs flow, when the password is well-formed, a
  challenge is resolved, the wallet unlocks and \<open>addressIndexes\<close> holds a non-negative
  integer that is no index of a derived address, the request fails with status 400 and
  the message \<open>Invalid address indexes: \<close> followed by the invalid indexes as \<open>join\<close>
  prints them (all their decimal digits for an index below \<open>2 ^ 53\<close>), no proof is
  produced and nothing is signed. In the consolidate flow, whenever the wallet unlocks,
  every result entry belongs to a derived address: no entry is produced for an index
  outside the derived-address set.
\<close>

theorem proofs_rejects_unknown_indexes:
  "(typeof_string (password b) \<and> strval (password b) \<noteq> []
     \<and> resolveChallenge (challenge b) (targetAddress b) (toISOString env) = Some ch
     \<and> loadWallet env (strval (password b)) = Inr addresses
     \<and> addressIndexes b = Some ns \<and> n \<in> set ns \<and> is_index n
     \<and> as_index n \<notin> index ` set addresses
     \<and> invalid = filter (\<lambda>i. i \<notin> index ` set addresses) (map as_index (filter is_index ns))
     \<longrightarrow>
       as_index n \<in> set invalid
       \<and> proofs_POST env b =
           (Failure 400 (''Invalid address indexes: ''
                         @ join '', '' (map (indexToString (toString_large env)) invalid)), [])
       \<and> proofs_of (fst (proofs_POST env b)) = []
       \<and> signCalls (snd (proofs_POST env b)) = []
       \<and> (\<forall>i \<in> set invalid. i < 2 ^ 53 \<longrightarrow>
             indexToString (toString_large env) i = showIndex i))
   \<and> (loadWallet env (strval (password b)) = Inr addresses \<longrightarrow>
        (\<forall>e \<in> set (results_of (fst (consolidate_POST env b))).
           \<exists>a \<in> set addresses. index a = e_index e \<and> bech32 a = donor e))"
proof (intro conjI impI)
  assume a: "typeof_string (password b) \<and> strval (password b) \<noteq> []
     \<and> resolveChallenge (challenge b) (targetAddress b) (toISOString env) = Some ch
     \<and> loadWallet env (strval (password b)) = Inr addresses
     \<and> addressIndexes b = Some ns \<and> n \<in> set ns \<and> is_index n
     \<and> as_index n \<notin> index ` set addresses
     \<and> invalid = filter (\<lambda>i. i \<notin> index ` set addresses) (map as_index (filter is_index ns))"
  then have pw: "typeof_string (password b)" "strval (password b) \<noteq> []"
    and ch: "resolveChallenge (challenge b) (targetAddress b) (toISOString env) = Some ch"
    and lw: "loadWallet env (strval (password b)) = Inr addresses"
    and ai: "addressIndexes b = Some ns" and n: "n \<in> set ns" "is_index n"
      "as_index n \<notin> index ` set addresses"
    and inv: "invalid = filter (\<lambda>i. i \<notin> index ` set addresses) (map as_index (filter is_index ns))"
    by simp_all
  have ne: "ns \<noteq> []" using n(1) by auto
  then have idx: "requestedIndexes (addressIndexes b) addresses = map as_index (filter is_index ns)"
    using ai by (simp add: requestedIndexes_def)
  show mem: "as_index n \<in> set invalid"
    using n inv by auto
  then have "invalid \<noteq> []" by auto
  moreover have "filter (\<lambda>i. i \<notin> set (map index addresses))
      (requestedIndexes (addressIndexes b) addresses) = invalid"
    unfolding idx inv by simp
  ultimately show run: "proofs_POST env b =
        (Failure 400 (''Invalid address indexes: ''
                      @ join '', '' (map (indexToString (toString_large env)) invalid)), [])"
    using pw ch lw by (rule proofs_POST_invalid [rotated 4])
  show "proofs_of (fst (proofs_POST env b)) = []" by (simp add: run)
  show "signCalls (snd (proofs_POST env b)) = []" by (simp add: run)
  show "\<forall>i \<in> set invalid. i < 2 ^ 53 \<longrightarrow> indexToString (toString_large env) i = showIndex i"
    by (simp add: indexToString_def)
next
  assume "loadWallet env (strval (password b)) = Inr addresses"
  then show "\<forall>e \<in> set (results_of (fst (consolidate_POST env b))).
           \<exists>a \<in> set addresses. index a = e_index e \<and> bech32 a = donor e"
    by (rule consolidate_entries_known)
qed

lemma ex_unknown_indexes:
  "requestedIndexes (addressIndexes ex_unknown_body) ex_addresses = [0, 7, 12]"
  by (simp add: ex_unknown_body_def requestedIndexes_def)

lemma ex_unknown_consolidate:
  "success (fst (consolidate_POST ex_env ex_unknown_body))"
  "map e_index (results_of (fst (consolidate_POST ex_env ex_unknown_body))) = [0]"
proof -
  let ?b = ex_unknown_body
  let ?m = "userSolutionsPerAddress (readReceipts ex_env)"
  let ?rc = "strval (recipientAddress ?b)"
  let ?d0 = "\<lparr> index = 0, bech32 = ''addr1qqqqqqqqqqqqqqqqqqqq0'', publicKeyHex = ''a0'' \<rparr>"
  let ?run = "forDonors ex_env (dryRun ?b = JBool True) ?rc
      (''Assign accumulated Scavenger rights to: '' @ ?rc) (effMaxRetries ?b) (effBackoff ?b) ?m
      [?d0] [] []"
  have pre: "truthy (password ?b)" "typeof_string (password ?b)" "isValidAddr (recipientAddress ?b)"
    "loadWallet ex_env (strval (password ?b)) = Inr ex_addresses"
    using ex_preflight by (simp_all add: ex_unknown_body_def)
  have rc: "?rc = ''addr1qqqqqqqqqqqqqqqqqqqq9''"
    using ex_preflight by (simp add: ex_unknown_body_def)
  have found: "List.map_filter (findAddress ex_addresses) [0, 7, 12] = [?d0]"
    by (simp add: findAddress_def ex_addresses_def)
  have d: "donorsOf ex_addresses ?m ?rc (requestedIndexes (addressIndexes ?b) ex_addresses) = [?d0]"
    unfolding ex_unknown_indexes donorsOf_def found rc using ex_counts by simp
  have ne: "[?d0] \<noteq> []" by simp
  note r = consolidate_POST_run [OF pre d ne prod.collapse [symmetric]]
  show "success (fst (consolidate_POST ex_env ?b))" using r(1) .
  have "map e_index (fst ?run) = [0]"
    by (simp add: forDonors_index del: forDonors.simps)
  then show "map e_index (results_of (fst (consolidate_POST ex_env ?b))) = [0]"
    unfolding r(2) .
qed

lemma ex_proofs_run_indexes:
  assumes "requestedIndexes ai ex_addresses = [0]"
  shows "proofs_POST ex_env (ex_proofs_body\<lparr> addressIndexes := ai \<rparr>) =
     (ProofSet ''prove-0'' 1
        [\<lparr> p_index = 0, p_address = ''addr1qqqqqqqqqqqqqqqqqqqq0'', p_signature = ''sig+0/='',
           p_totalUserSolutions = 1, p_publicKeyHex = Some ''a0'' \<rparr>]
        ''Submit these proofs to the consolidation portal. If the portal provides its own challenge string, re-run with that exact value.'',
      [Sign 0 ''prove-0''])"
proof -
  let ?b = ex_proofs_body
  have ch: "resolveChallenge (challenge ?b) (targetAddress ?b) (toISOString ex_env)
          = Some ''prove-0''"
    by (simp add: ex_proofs_body_def resolveChallenge_def trim_def is_space_def)
  have lw: "loadWallet ex_env (strval (password ?b)) = Inr ex_addresses"
    by (simp add: ex_proofs_body_def ex_body_def ex_env_def)
  note idx = assms
  have inv: "0 \<in> index ` set ex_addresses"
    by (simp add: ex_addresses_def)
  have f0: "findAddress ex_addresses 0 =
      Some \<lparr> index = 0, bech32 = ''addr1qqqqqqqqqqqqqqqqqqqq0'', publicKeyHex = ''a0'' \<rparr>"
    by (simp add: findAddress_def ex_addresses_def)
  have el: "filterEligible ex_addresses (userSolutionsPerAddress (readReceipts ex_env)) [0] = Inr [0]"
    by (simp add: f0 ex_counts)
  have sg: "signMessage ex_env 0 ''prove-0'' = Inr ''sig+0/=''"
    by (simp add: ex_env_def)
  have pw: "typeof_string (password ?b)" "strval (password ?b) \<noteq> []"
    "includePublicKey ?b \<noteq> JBool False"
    by (simp_all add: ex_proofs_body_def ex_body_def)
  show ?thesis
    unfolding proofs_POST_def by (simp add: ch lw idx inv el pw f0 sg ex_counts)
qed

text \<open>
  The claim as stated fails in the consolidate flow, where the unknown indexes 7 and 12
  are dropped and the request succeeds for index 0 alone; and a negative integer is
  dropped by the proofs flow too.
\<close>

theorem consolidate_skips_unknown_indexes:
  "addressIndexes ex_unknown_body = Some [Fin 0, Fin 7, Fin 12]
   \<and> 7 \<notin> index ` set ex_addresses
   \<and> success (fst (consolidate_POST ex_env ex_unknown_body))
   \<and> map e_index (results_of (fst (consolidate_POST ex_env ex_unknown_body))) = [0]
   \<and> - 1 \<notin> int ` index ` set ex_addresses
   \<and> success (fst (proofs_POST ex_env (ex_proofs_body\<lparr> addressIndexes := Some [Fin 0, Fin (- 1)] \<rparr>)))
   \<and> map p_index (proofs_of (fst (proofs_POST ex_env
         (ex_proofs_body\<lparr> addressIndexes := Some [Fin 0, Fin (- 1)] \<rparr>)))) = [0]"
proof -
  have "requestedIndexes (Some [Fin 0, Fin (- 1)]) ex_addresses = [0]"
    by (simp add: requestedIndexes_def)
  note p = ex_proofs_run_indexes [OF this]
  have "addressIndexes ex_unknown_body = Some [Fin 0, Fin 7, Fin 12]"
    by (simp add: ex_unknown_body_def)
  moreover have "7 \<notin> index ` set ex_addresses" "- 1 \<notin> int ` index ` set ex_addresses"
    by (simp_all add: ex_addresses_def)
  ultimately show ?thesis
    using ex_unknown_consolidate by (simp add: p)
qed

theorem proofs_rejects_unknown_indexes_witness:
  "proofs_POST ex_env (ex_unknown_body\<lparr> challenge := JStr ''c'' \<rparr>) =
     (Failure 400 ''Invalid address indexes: 7, 12'', [])
   \<and> e_index (hd (results_of (fst (consolidate_POST ex_env ex_unknown_body))))
       \<in> index ` set ex_addresses"
proof -
  let ?b = "ex_unknown_body\<lparr> challenge := JStr ''c'' \<rparr>"
  have pre: "typeof_string (password ?b) \<and> strval (password ?b) \<noteq> []
     \<and> resolveChallenge (challenge ?b) (targetAddress ?b) (toISOString ex_env) = Some ''c''
     \<and> loadWallet ex_env (strval (password ?b)) = Inr ex_addresses
     \<and> addressIndexes ?b = Some [Fin 0, Fin 7, Fin 12] \<and> Fin 7 \<in> set [Fin 0, Fin 7, Fin 12]
     \<and> is_index (Fin 7)
     \<and> as_index (Fin 7) \<notin> index ` set ex_addresses
     \<and> [7, 12] = filter (\<lambda>i. i \<notin> index ` set ex_addresses)
          (map as_index (filter is_index [Fin 0, Fin 7, Fin 12]))"
  proof (intro conjI)
    show "typeof_string (password ?b)" "strval (password ?b) \<noteq> []"
      by (simp_all add: ex_unknown_body_def ex_body_def)
    show "resolveChallenge (challenge ?b) (targetAddress ?b) (toISOString ex_env) = Some ''c''"
      by (simp add: ex_unknown_body_def ex_body_def resolveChallenge_def trim_def is_space_def)
    show "loadWallet ex_env (strval (password ?b)) = Inr ex_addresses"
      using ex_preflight(4) by (simp add: ex_unknown_body_def)
    show "addressIndexes ?b = Some [Fin 0, Fin 7, Fin 12]"
      by (simp add: ex_unknown_body_def)
    show "Fin 7 \<in> set [Fin 0, Fin 7, Fin 12]" "is_index (Fin 7)" by simp_all
    show "as_index (Fin 7) \<notin> index ` set ex_addresses" by (simp add: ex_addresses_def)
    show "[7, 12] = filter (\<lambda>i. i \<notin> index ` set ex_addresses)
          (map as_index (filter is_index [Fin 0, Fin 7, Fin 12]))"
      by (simp add: ex_addresses_def)
  qed
  note w = proofs_rejects_unknown_indexes [of ?b ex_env "''c''" ex_addresses
      "[Fin 0, Fin 7, Fin 12]" "Fin 7" "[7, 12]", THEN conjunct1, rule_format, OF pre]
  have msg: "''Invalid address indexes: ''
        @ join '', '' (map (indexToString (toString_large ex_env)) [7, 12])
      = ''Invalid address indexes: 7, 12''"
    by (simp add: indexToString_def showIndex.simps)
  from w have "proofs_POST ex_env ?b =
      (Failure 400 (''Invalid address indexes: ''
         @ join '', '' (map (indexToString (toString_large ex_env)) [7, 12])), [])"
    by (elim conjE)
  then have run: "proofs_POST ex_env ?b = (Failure 400 ''Invalid address indexes: 7, 12'', [])"
    unfolding msg .
  have lw: "loadWallet ex_env (strval (password ex_unknown_body)) = Inr ex_addresses"
    using ex_preflight(4) by (simp add: ex_unknown_body_def)
  note known = proofs_rejects_unknown_indexes [of ex_unknown_body ex_env _ ex_addresses,
      THEN conjunct2, rule_format, OF lw]
  have "results_of (fst (consolidate_POST ex_env ex_unknown_body)) \<noteq> []"
    using ex_unknown_consolidate(2) by auto
  then have mem: "hd (results_of (fst (consolidate_POST ex_env ex_unknown_body)))
      \<in> set (results_of (fst (consolidate_POST ex_env ex_unknown_body)))" by simp
  from known [OF mem] obtain a where "a \<in> set ex_addresses"
    and "index a = e_index (hd (results_of (fst (consolidate_POST ex_env ex_unknown_body))))"
    by (elim bexE conjE)
  then have in_wallet: "e_index (hd (results_of (fst (consolidate_POST ex_env ex_unknown_body))))
       \<in> index ` set ex_addresses"
    by (intro image_eqI [of _ _ a]) simp_all
  from run in_wallet show ?thesis by (intro conjI)
qed

end
